theory Spec2Isabelle
  imports Main "HOL-Library.Multiset"
begin

section \<open>JavaScript values used by the release aggregation engine\<close>

text \<open>
  Strings are lists of code units (\<^typ>\<open>string\<close>). A JavaScript number that can be
  \<open>NaN\<close> is an \<^typ>\<open>int option\<close> with \<open>None\<close> for \<open>NaN\<close>; the numbers of this program are
  integers (parsed digit strings, track counts, millisecond time values). A value that can
  be \<open>undefined\<close> or \<open>null\<close> is an option with \<open>None\<close> for the missing value.
\<close>

type_synonym num = "int option"

subsection \<open>String methods: toLowerCase, includes, split\<close>

text \<open>
  Code units are 0 to 255. The upper-case letters among them are A to Z and, in the
  Latin-1 range, 192 to 222 without the multiplication sign 215; each has its lower case
  32 places on.
\<close>

definition toLowerChar :: "char \<Rightarrow> char" where
  "toLowerChar c =
     (let n = (of_char c :: nat)
      in if (65 \<le> n \<and> n \<le> 90) \<or> (192 \<le> n \<and> n \<le> 222 \<and> n \<noteq> 215)
         then char_of (n + 32) else c)"

definition toLowerCase :: "string \<Rightarrow> string" where
  "toLowerCase s = map toLowerChar s"

definition startsWith :: "string \<Rightarrow> string \<Rightarrow> bool" where
  "startsWith s t = (take (length t) s = t)"

fun includes_str :: "string \<Rightarrow> string \<Rightarrow> bool" where
  "includes_str [] t = (t = [])"
| "includes_str (c # cs) t = (startsWith (c # cs) t \<or> includes_str cs t)"

text \<open>\<open>s.split('-')\<close>: the pieces between the separators, always at least one piece.\<close>

fun split_dash :: "string \<Rightarrow> string list" where
  "split_dash [] = [[]]"
| "split_dash (c # cs) =
     (if c = CHR ''-'' then [] # split_dash cs
      else (case split_dash cs of p # ps \<Rightarrow> (c # p) # ps | [] \<Rightarrow> [[c]]))"

subsection \<open>Releases\<close>

text \<open>
  The album object built by the retrieval module and read by the release filter. A
  release date that is \<open>undefined\<close> or \<open>null\<close> is \<open>None\<close>.
\<close>

record album =
  album_id :: string
  name :: string
  album_type :: string
  total_tracks :: int
  release_date :: "string option"
  spotify_url :: string
  artist_id :: string
  artist_name :: string

subsection \<open>Truthiness, parseInt\<close>

text \<open>\<open>!s\<close> for a string that may be missing: true for \<open>undefined\<close>, \<open>null\<close> and the empty string.\<close>

definition falsy_str :: "string option \<Rightarrow> bool" where
  "falsy_str s = (s = None \<or> s = Some [])"

text \<open>
  \<open>parseInt(s, 10)\<close>: leading white space is skipped, a sign is read, then the longest
  run of decimal digits; \<open>NaN\<close> when that run is empty. Among the code units 0 to 255
  the white space is tab, line feed, vertical tab, form feed, carriage return, space and
  the no-break space.
\<close>

definition isWhiteSpace :: "char \<Rightarrow> bool" where
  "isWhiteSpace c = ((of_char c :: nat) \<in> {9, 10, 11, 12, 13, 32, 160})"

definition isDigit :: "char \<Rightarrow> bool" where
  "isDigit c = (48 \<le> (of_char c :: nat) \<and> (of_char c :: nat) \<le> 57)"

definition digitValue :: "char \<Rightarrow> int" where
  "digitValue c = int (of_char c) - 48"

definition decimalValue :: "string \<Rightarrow> int" where
  "decimalValue Z = foldl (\<lambda>acc c. 10 * acc + digitValue c) 0 Z"

definition parseInt :: "string \<Rightarrow> num" where
  "parseInt s =
     (let S = dropWhile isWhiteSpace s;
          sign = (if S \<noteq> [] \<and> hd S = CHR ''-'' then - 1 else 1 :: int);
          S' = (if S \<noteq> [] \<and> (hd S = CHR ''+'' \<or> hd S = CHR ''-'') then tl S else S);
          Z = takeWhile isDigit S'
      in if Z = [] then None else Some (sign * decimalValue Z))"

text \<open>A non-empty string of decimal digits.\<close>

definition digits :: "string \<Rightarrow> bool" where
  "digits Z = (Z \<noteq> [] \<and> list_all isDigit Z)"

subsection \<open>Array.prototype.sort\<close>

text \<open>
  \<open>sort(comparefn)\<close>: a comparator result of \<open>NaN\<close> counts as 0 (\<open>SortCompare\<close>), and
  the sort is stable. For a comparator that is consistent on the elements, this fixes the
  result, which the insertion sort below computes; for any other comparator JavaScript
  leaves the order to the implementation.
\<close>

definition SortCompare :: "('a \<Rightarrow> 'a \<Rightarrow> num) \<Rightarrow> 'a \<Rightarrow> 'a \<Rightarrow> int" where
  "SortCompare comparefn x y = (case comparefn x y of None \<Rightarrow> 0 | Some v \<Rightarrow> v)"

fun insert_sorted :: "('a \<Rightarrow> 'a \<Rightarrow> num) \<Rightarrow> 'a \<Rightarrow> 'a list \<Rightarrow> 'a list" where
  "insert_sorted comparefn x [] = [x]"
| "insert_sorted comparefn x (y # ys) =
     (if SortCompare comparefn x y \<le> 0 then x # y # ys
      else y # insert_sorted comparefn x ys)"

fun array_sort :: "('a \<Rightarrow> 'a \<Rightarrow> num) \<Rightarrow> 'a list \<Rightarrow> 'a list" where
  "array_sort comparefn [] = []"
| "array_sort comparefn (x # xs) = insert_sorted comparefn x (array_sort comparefn xs)"

subsection \<open>Date\<close>

text \<open>
  A \<open>Date\<close> holds a time value: milliseconds since the epoch, or \<open>NaN\<close> for an invalid
  date. \<open>new Date(year, month, day)\<close> reads its arguments as local time: a year from 0
  to 99 stands for 1900 + year, a month outside 0 to 11 carries into the year
  (\<open>MakeDay\<close>), and the result is clipped to the range of time values (\<open>TimeClip\<close>).
  The host's time zone is a fixed offset \<open>tz\<close>, in milliseconds east of UTC. Integer
  arithmetic is exact here; beyond the range where JavaScript's numbers are exact the
  time value is \<open>NaN\<close> in both.
\<close>

definition msPerDay :: int where
  "msPerDay = 86400000"

definition DayFromYear :: "int \<Rightarrow> int" where
  "DayFromYear y = 365 * (y - 1970) + (y - 1969) div 4 - (y - 1901) div 100 + (y - 1601) div 400"

definition isLeapYear :: "int \<Rightarrow> bool" where
  "isLeapYear y = (y mod 4 = 0 \<and> (y mod 100 \<noteq> 0 \<or> y mod 400 = 0))"

definition monthStart :: "int \<Rightarrow> bool \<Rightarrow> int" where
  "monthStart mn leap =
     [0, 31, 59, 90, 120, 151, 181, 212, 243, 273, 304, 334] ! nat mn
       + (if leap \<and> 2 \<le> mn then 1 else 0)"

definition MakeDay :: "int \<Rightarrow> int \<Rightarrow> int \<Rightarrow> int" where
  "MakeDay year month date =
     (let ym = year + month div 12; mn = month mod 12
      in DayFromYear ym + monthStart mn (isLeapYear ym) + date - 1)"

definition TimeClip :: "int \<Rightarrow> num" where
  "TimeClip t = (if \<bar>t\<bar> > 8640000000000000 then None else Some t)"

datatype jsdate = Date (getTime: num)

definition new_Date_ms :: "int \<Rightarrow> jsdate" where
  "new_Date_ms t = Date (TimeClip t)"

definition new_Date :: "int \<Rightarrow> num \<Rightarrow> num \<Rightarrow> num \<Rightarrow> jsdate" where
  "new_Date tz year month day =
     (case (year, month, day) of
        (Some y, Some m, Some dt) \<Rightarrow>
          (let yr = (if 0 \<le> y \<and> y \<le> 99 then 1900 + y else y)
           in Date (TimeClip (MakeDay yr m dt * msPerDay - tz)))
      | _ \<Rightarrow> Date None)"

text \<open>Relational operators on two dates compare the time values; with \<open>NaN\<close> they are false.\<close>

definition date_ge :: "jsdate \<Rightarrow> jsdate \<Rightarrow> bool" where
  "date_ge a b = (case (getTime a, getTime b) of (Some x, Some y) \<Rightarrow> x \<ge> y | _ \<Rightarrow> False)"

definition date_lt :: "jsdate \<Rightarrow> jsdate \<Rightarrow> bool" where
  "date_lt a b = (case (getTime a, getTime b) of (Some x, Some y) \<Rightarrow> x < y | _ \<Rightarrow> False)"

section \<open>Release filter\<close>

subsection \<open>isAlbumOrEP\<close>

definition isAlbumOrEP :: "album \<Rightarrow> bool" where
  "isAlbumOrEP a =
     (if album_type a = ''album'' then True
      else if album_type a = ''single''
        then total_tracks a \<ge> 4 \<or> includes_str (toLowerCase (name a)) ''ep''
      else False)"

subsection \<open>parseReleaseDate\<close>

text \<open>
  The three local constants \<open>year\<close>, \<open>month\<close> and \<open>day\<close> of \<open>parseReleaseDate\<close>, the
  arguments it passes to \<open>new Date\<close>. The same lines open \<open>isOlderThanDays\<close>.
\<close>

definition dateArgs :: "string \<Rightarrow> num \<times> num \<times> num" where
  "dateArgs releaseDateString =
     (let parts = split_dash releaseDateString;
          year = parseInt (hd parts);
          month = (if 1 < length parts \<and> parts ! 1 \<noteq> []
                   then map_option (\<lambda>n. n - 1) (parseInt (parts ! 1)) else Some 0);
          day = (if 2 < length parts \<and> parts ! 2 \<noteq> [] then parseInt (parts ! 2) else Some 1)
      in (year, month, day))"

definition parseReleaseDate :: "int \<Rightarrow> string option \<Rightarrow> jsdate option" where
  "parseReleaseDate tz releaseDateString =
     (if falsy_str releaseDateString then None
      else (case dateArgs (the releaseDateString) of
              (year, month, day) \<Rightarrow> Some (new_Date tz year month day)))"

subsection \<open>isRecentRelease, sortByReleaseDate, filterReleases\<close>

text \<open>
  \<open>now\<close> is the reading of the clock (\<open>new Date().getTime()\<close>), taken as one value
  through a call.
\<close>

definition isRecentRelease :: "int \<Rightarrow> int \<Rightarrow> album \<Rightarrow> int \<Rightarrow> bool" where
  "isRecentRelease now tz a daysBack =
     (case parseReleaseDate tz (release_date a) of
        None \<Rightarrow> False
      | Some releaseDate \<Rightarrow>
          (let cutoffDate = new_Date_ms (now - daysBack * 24 * 60 * 60 * 1000)
           in date_ge releaseDate cutoffDate))"

definition sortByReleaseDate :: "int \<Rightarrow> album \<Rightarrow> album \<Rightarrow> num" where
  "sortByReleaseDate tz a b =
     (let dateA = parseReleaseDate tz (release_date a);
          dateB = parseReleaseDate tz (release_date b)
      in if dateA = None \<and> dateB = None then Some 0
         else if dateA = None then Some 1
         else if dateB = None then Some (- 1)
         else (case (getTime (the dateB), getTime (the dateA)) of
                 (Some tb, Some ta) \<Rightarrow> Some (tb - ta)
               | _ \<Rightarrow> None))"

definition filterReleases :: "int \<Rightarrow> int \<Rightarrow> album list \<Rightarrow> int \<Rightarrow> album list" where
  "filterReleases now tz albums daysBack =
     array_sort (sortByReleaseDate tz)
       (filter (\<lambda>a. isRecentRelease now tz a daysBack) (filter isAlbumOrEP albums))"

text \<open>
  The comparable instant of a release, the order newest first with missing dates last,
  and the releases on which the comparator is consistent.
\<close>

definition releaseInstant :: "int \<Rightarrow> album \<Rightarrow> num" where
  "releaseInstant tz a =
     (case parseReleaseDate tz (release_date a) of None \<Rightarrow> None | Some d \<Rightarrow> getTime d)"

definition newestFirst :: "int \<Rightarrow> album \<Rightarrow> album \<Rightarrow> bool" where
  "newestFirst tz a b =
     (falsy_str (release_date b)
      \<or> (case (releaseInstant tz a, releaseInstant tz b) of
            (Some ta, Some tb) \<Rightarrow> tb \<le> ta
          | _ \<Rightarrow> False))"

definition datedOrMissing :: "int \<Rightarrow> album \<Rightarrow> bool" where
  "datedOrMissing tz a = (falsy_str (release_date a) \<or> releaseInstant tz a \<noteq> None)"

section \<open>Artist list management\<close>

text \<open>
  An artist as a source delivers it, and the record the manager stores. A missing
  \<open>id\<close>, \<open>genres\<close>, \<open>popularity\<close> or \<open>followers\<close> is \<open>None\<close>. The manager's
  \<open>combinedArtists\<close> is a JavaScript \<open>Map\<close>: an association list in insertion order with
  one entry per key; \<open>mutate\<close> is the in-place change of the object stored under a key.
\<close>

record source_artist =
  src_id :: "string option"
  src_name :: string
  src_spotify_url :: string
  src_genres :: "string list option"
  src_popularity :: "int option"
  src_followers :: "int option"

record artist =
  aid :: string
  aname :: string
  aurl :: string
  sources :: "string list"
  genres :: "string list option"
  popularity :: "int option"
  followers :: "int option"

type_synonym artist_map = "(string \<times> artist) list"

text \<open>\<open>x && {field: x}\<close> spread into the object: the field is kept when \<open>x\<close> is truthy.\<close>

definition truthy_num :: "int option \<Rightarrow> int option" where
  "truthy_num n = (case n of None \<Rightarrow> None | Some v \<Rightarrow> if v = 0 then None else Some v)"

definition enhancedArtist :: "string \<Rightarrow> string \<Rightarrow> source_artist \<Rightarrow> artist" where
  "enhancedArtist i sourceName a =
     \<lparr> aid = i, aname = src_name a, aurl = src_spotify_url a, sources = [sourceName],
       genres = src_genres a,
       popularity = truthy_num (src_popularity a),
       followers = truthy_num (src_followers a) \<rparr>"

fun mutate :: "string \<Rightarrow> (artist \<Rightarrow> artist) \<Rightarrow> artist_map \<Rightarrow> artist_map" where
  "mutate k f [] = []"
| "mutate k f ((k', v) # m) = (if k' = k then (k', f v) # m else (k', v) # mutate k f m)"

text \<open>The body of the \<open>forEach\<close> callback of \<open>addArtistsFromSource\<close>.\<close>

definition addArtist :: "string \<Rightarrow> artist_map \<Rightarrow> source_artist \<Rightarrow> artist_map" where
  "addArtist sourceName m a =
     (case src_id a of
        None \<Rightarrow> m
      | Some i \<Rightarrow>
          if i = [] then m
          else (case map_of m i of
                  Some existingArtist \<Rightarrow>
                    if sourceName \<in> set (sources existingArtist) then m
                    else mutate i (\<lambda>e. e\<lparr>sources := sources e @ [sourceName]\<rparr>) m
                | None \<Rightarrow> m @ [(i, enhancedArtist i sourceName a)]))"

definition addArtistsFromSource :: "source_artist list \<Rightarrow> string \<Rightarrow> artist_map \<Rightarrow> artist_map" where
  "addArtistsFromSource artists sourceName m =
     (if artists = [] then m else foldl (addArtist sourceName) m artists)"

definition combineArtistSources ::
  "source_artist list \<Rightarrow> source_artist list \<Rightarrow> source_artist list \<Rightarrow> artist list" where
  "combineArtistSources followedArtists likedTrackArtists savedAlbumArtists =
     (let m0 = [];
          m1 = addArtistsFromSource followedArtists ''followed'' m0;
          m2 = addArtistsFromSource likedTrackArtists ''liked_tracks'' m1;
          m3 = addArtistsFromSource savedAlbumArtists ''saved_albums'' m2
      in map snd m3)"

text \<open>The invariant of the map: keys are distinct, each record carries its key and distinct tags.\<close>

definition wf_map :: "artist_map \<Rightarrow> bool" where
  "wf_map m = (distinct (map fst m) \<and> list_all (\<lambda>(k, v). aid v = k \<and> distinct (sources v)) m)"

text \<open>The ids a source list contributes: present and non-empty.\<close>

definition valid_ids :: "source_artist list \<Rightarrow> string set" where
  "valid_ids as = {i. i \<noteq> [] \<and> Some i \<in> src_id ` set as}"

section \<open>Album retrieval\<close>

subsection \<open>isOlderThanDays\<close>

definition isOlderThanDays :: "int \<Rightarrow> int \<Rightarrow> string option \<Rightarrow> int \<Rightarrow> bool" where
  "isOlderThanDays now tz releaseDateString daysBack =
     (if falsy_str releaseDateString then True
      else (case dateArgs (the releaseDateString) of
              (year, month, day) \<Rightarrow>
                (let releaseDate = new_Date tz year month day;
                     cutoffDate = new_Date_ms (now - daysBack * 24 * 60 * 60 * 1000)
                 in date_lt releaseDate cutoffDate)))"

subsection \<open>The catalog service and the host\<close>

text \<open>
  An item of a page (\<open>item_artists\<close> are the ids of its \<open>artists\<close>), the body of a
  response of the artist-albums endpoint, and the object a failed request throws:
  \<open>statusCode\<close>, \<open>headers\<close> (\<open>None\<close> when the object has no headers, else the
  \<open>retry-after\<close> entry, which may be missing) and \<open>message\<close> (\<open>None\<close> when it has none).
  An \<open>Error\<close> made by the module or by the runtime has a message, no status and no
  headers. The search endpoint answers with the album items of \<open>body.albums.items\<close>,
  \<open>None\<close> when there are none.

  The module runs one request at a time, so a run is fixed by what the service answers
  to the first, second, ... request: each endpoint is a function of the number of
  requests made before and of the request. The world is the trace of requests and timer
  waits so far. The clock reading \<open>now\<close> is taken as constant through a run, whose
  windows are counted in days.
\<close>

record api_album =
  item_id :: string
  item_name :: string
  item_album_type :: string
  item_total_tracks :: int
  item_release_date :: "string option"
  item_spotify_url :: string
  item_artists :: "string list"

record page =
  items :: "api_album list"
  total :: int

record js_error =
  statusCode :: "int option"
  headers :: "string option option"
  message :: "string option"

datatype event = Request string nat | Search string | Sleep int

type_synonym world = "event list"

type_synonym api = "nat \<Rightarrow> string \<Rightarrow> nat \<Rightarrow> js_error + page"

type_synonym search_api = "nat \<Rightarrow> string \<Rightarrow> js_error + api_album list option"

fun isRequest :: "event \<Rightarrow> bool" where
  "isRequest (Request i off) = True"
| "isRequest (Search query) = True"
| "isRequest (Sleep ms) = False"

definition nreq :: "world \<Rightarrow> nat" where
  "nreq w = length (filter isRequest w)"

definition getArtistAlbums :: "api \<Rightarrow> string \<Rightarrow> nat \<Rightarrow> world \<Rightarrow> (js_error + page) \<times> world" where
  "getArtistAlbums spotifyApi i off w = (spotifyApi (nreq w) i off, w @ [Request i off])"

definition search ::
  "search_api \<Rightarrow> string \<Rightarrow> world \<Rightarrow> (js_error + api_album list option) \<times> world" where
  "search searchApi query w = (searchApi (nreq w) query, w @ [Search query])"

text \<open>
  \<open>delay(ms)\<close> waits on \<open>setTimeout\<close>, and the runtime sets a delay that is \<open>NaN\<close>, below
  1 or above 2147483647 to 1 millisecond; \<open>Sleep\<close> records the delay the timer runs
  with. The delays of this module are products of integers. Where JavaScript's product
  is inexact (from 2 to the power 53 on) it is above 2147483647 like the exact one, so
  the timer's delay is the same.
\<close>

definition timerDelay :: "num \<Rightarrow> int" where
  "timerDelay ms =
     (case ms of None \<Rightarrow> 1 | Some t \<Rightarrow> if 1 \<le> t \<and> t \<le> 2147483647 then t else 1)"

definition delay :: "num \<Rightarrow> world \<Rightarrow> world" where
  "delay ms w = w @ [Sleep (timerDelay ms)]"

definition new_Error :: "string \<Rightarrow> js_error" where
  "new_Error m = \<lparr> statusCode = None, headers = None, message = Some m \<rparr>"

text \<open>The error of reading a property of \<open>undefined\<close>, with the message the runtime gives it.\<close>

definition TypeError_undefined :: "string \<Rightarrow> js_error" where
  "TypeError_undefined property =
     new_Error (''Cannot read properties of undefined (reading '' @ [CHR 0x27] @ property
                @ [CHR 0x27] @ '')'')"

subsection \<open>fetchArtistAlbumsWithEarlyTermination\<close>

text \<open>The album object the module builds from an item of the page.\<close>

definition toAlbum :: "artist \<Rightarrow> api_album \<Rightarrow> album" where
  "toAlbum a it =
     \<lparr> album_id = item_id it, name = item_name it, album_type = item_album_type it,
       total_tracks = item_total_tracks it, release_date = item_release_date it,
       spotify_url = item_spotify_url it, artist_id = aid a, artist_name = aname a \<rparr>"

text \<open>The inner \<open>for\<close> loop: whether some album of the page is older than 10 days.\<close>

definition foundOldAlbum :: "int \<Rightarrow> int \<Rightarrow> album list \<Rightarrow> bool" where
  "foundOldAlbum now tz albums = list_ex (\<lambda>a. isOlderThanDays now tz (release_date a) 10) albums"

text \<open>
  The \<open>while\<close> loop, with its variables \<open>totalAvailable\<close> (\<open>None\<close> for \<open>null\<close>), \<open>offset\<close>
  and \<open>allAlbums\<close>; the page size \<open>limit\<close> is 20. An error thrown by the request leaves
  the loop. The loop ends: while it continues, the offset grows by at least 20 and stays
  below the total of the first response.
\<close>

function scan ::
  "api \<Rightarrow> int \<Rightarrow> int \<Rightarrow> artist \<Rightarrow> int option \<Rightarrow> nat \<Rightarrow> album list \<Rightarrow> world
     \<Rightarrow> (js_error + album list) \<times> world" where
  "scan spotifyApi now tz a totalAvailable off allAlbums w =
     (if totalAvailable = None \<or> int off < the totalAvailable then
        (case getArtistAlbums spotifyApi (aid a) off w of
           (Inl err, w') \<Rightarrow> (Inl err, w')
         | (Inr response, w') \<Rightarrow>
             (let totalAvailable' =
                    (if totalAvailable = None then Some (total response) else totalAvailable);
                  albums = map (toAlbum a) (items response);
                  allAlbums' = allAlbums @ albums
              in if foundOldAlbum now tz albums then (Inr allAlbums', w')
                 else if length albums < 20 then (Inr allAlbums', w')
                 else scan spotifyApi now tz a totalAvailable' (off + length albums) allAlbums' w'))
      else (Inr allAlbums, w))"
  by pat_completeness auto
termination
  by (relation "measures [\<lambda>(spotifyApi, now, tz, a, totalAvailable, off, allAlbums, w).
                             (if totalAvailable = None then 1 else 0),
                          \<lambda>(spotifyApi, now, tz, a, totalAvailable, off, allAlbums, w).
                             nat (the totalAvailable - int off)]")
     (auto split: if_splits)

declare scan.simps [simp del]

text \<open>The message of the error thrown for a rate-limited request.\<close>

definition rateLimitMessage :: "string \<Rightarrow> string" where
  "rateLimitMessage retryAfter = ''Rate limited. Retry after '' @ retryAfter @ '' seconds''"

text \<open>
  The \<open>try\<close> around the loop and its \<open>catch\<close>. Reading \<open>retry-after\<close> of missing headers
  throws from the \<open>catch\<close>; a missing message prints as \<open>undefined\<close> in the template.
\<close>

definition fetchArtistAlbumsWithEarlyTermination ::
  "api \<Rightarrow> int \<Rightarrow> int \<Rightarrow> artist \<Rightarrow> world \<Rightarrow> (js_error + album list) \<times> world" where
  "fetchArtistAlbumsWithEarlyTermination spotifyApi now tz a w =
     (case scan spotifyApi now tz a None 0 [] w of
        (Inr allAlbums, w') \<Rightarrow> (Inr allAlbums, w')
      | (Inl error, w') \<Rightarrow>
          if statusCode error = Some 429 then
            (case headers error of
               None \<Rightarrow> (Inl (TypeError_undefined ''retry-after''), w')
             | Some entry \<Rightarrow>
                 (let retryAfter = (case entry of
                                      None \<Rightarrow> ''1''
                                    | Some h \<Rightarrow> if h = [] then ''1'' else h)
                  in (Inl (new_Error (rateLimitMessage retryAfter)), w')))
          else if statusCode error = Some 404 then (Inr [], w')
          else if (case statusCode error of None \<Rightarrow> False | Some c \<Rightarrow> c \<ge> 500) then
            (Inl (new_Error (''Spotify API error for '' @ aname a @ '': ''
                             @ (case message error of None \<Rightarrow> ''undefined'' | Some m \<Rightarrow> m))), w')
          else (Inl error, w'))"

subsection \<open>fetchRecentAlbumsViaSearch\<close>

text \<open>The two queries: with the \<open>tag:new\<close> filter, and the artist alone.\<close>

definition searchQueries :: "artist \<Rightarrow> string list" where
  "searchQueries a =
     [''artist:'' @ [CHR 0x22] @ aname a @ [CHR 0x22] @ '' tag:new'',
      ''artist:'' @ [CHR 0x22] @ aname a @ [CHR 0x22]]"

text \<open>
  The two filters and the map on the items of a search response: exact artist match,
  then, for a query without \<open>tag:new\<close>, not older than 10 days.
\<close>

definition searchAlbums :: "int \<Rightarrow> int \<Rightarrow> artist \<Rightarrow> string \<Rightarrow> api_album list \<Rightarrow> album list" where
  "searchAlbums now tz a query its =
     map (toAlbum a)
       (filter (\<lambda>album. if \<not> includes_str query ''tag:new''
                        then \<not> isOlderThanDays now tz (item_release_date album) 10
                        else True)
          (filter (\<lambda>album. aid a \<in> set (item_artists album)) its))"

text \<open>
  The \<open>for\<close> loop over the queries with its inner \<open>try\<close>: a failed \<open>tag:new\<close> query goes
  on to the next one, any other failed query throws; after the last query the function
  returns the empty list.
\<close>

fun searchLoop ::
  "search_api \<Rightarrow> int \<Rightarrow> int \<Rightarrow> artist \<Rightarrow> string list \<Rightarrow> world
     \<Rightarrow> (js_error + album list) \<times> world" where
  "searchLoop searchApi now tz a [] w = (Inr [], w)"
| "searchLoop searchApi now tz a (query # rest) w =
     (case search searchApi query w of
        (Inl queryError, w') \<Rightarrow>
          if includes_str query ''tag:new'' then searchLoop searchApi now tz a rest w'
          else (Inl queryError, w')
      | (Inr body, w') \<Rightarrow>
          (let allAlbums = (case body of
                              None \<Rightarrow> []
                            | Some its \<Rightarrow> searchAlbums now tz a query its)
           in if length allAlbums > 0 \<or> includes_str query ''tag:new'' then (Inr allAlbums, w')
              else searchLoop searchApi now tz a rest w'))"

text \<open>The outer \<open>try\<close>: whatever the search throws, the paginated scan takes over.\<close>

definition fetchRecentAlbumsViaSearch ::
  "search_api \<Rightarrow> api \<Rightarrow> int \<Rightarrow> int \<Rightarrow> artist \<Rightarrow> world \<Rightarrow> (js_error + album list) \<times> world" where
  "fetchRecentAlbumsViaSearch searchApi spotifyApi now tz a w =
     (case searchLoop searchApi now tz a (searchQueries a) w of
        (Inr albums, w') \<Rightarrow> (Inr albums, w')
      | (Inl error, w') \<Rightarrow> fetchArtistAlbumsWithEarlyTermination spotifyApi now tz a w')"

subsection \<open>fetchArtistAlbums\<close>

definition fetchArtistAlbums ::
  "bool \<Rightarrow> search_api \<Rightarrow> api \<Rightarrow> int \<Rightarrow> int \<Rightarrow> artist \<Rightarrow> world
     \<Rightarrow> (js_error + album list) \<times> world" where
  "fetchArtistAlbums useSearchOptimization searchApi spotifyApi now tz a w =
     (if useSearchOptimization then fetchRecentAlbumsViaSearch searchApi spotifyApi now tz a w
      else fetchArtistAlbumsWithEarlyTermination spotifyApi now tz a w)"

subsection \<open>processBatch\<close>

text \<open>The first match of a run of decimal digits in the message, if there is one.\<close>

definition firstDigits :: "string \<Rightarrow> string option" where
  "firstDigits s =
     (let r = dropWhile (\<lambda>c. \<not> isDigit c) s
      in if r = [] then None else Some (takeWhile isDigit r))"

text \<open>
  The body of the \<open>for\<close> loop for the artist at index \<open>i\<close>, on the pair of
  \<open>batchResults\<close> and the world. The \<open>catch\<close> of the retry is empty. The outer \<open>catch\<close>
  calls \<open>includes\<close> on the message of the error: when the error has no message this
  throws, and the exception leaves \<open>processBatch\<close>.
\<close>

definition processArtist ::
  "bool \<Rightarrow> search_api \<Rightarrow> api \<Rightarrow> int \<Rightarrow> int \<Rightarrow> nat \<Rightarrow> artist \<Rightarrow> album list \<times> world
     \<Rightarrow> (js_error + album list) \<times> world" where
  "processArtist useSearchOptimization searchApi spotifyApi now tz i a st =
     (case st of (batchResults, w) \<Rightarrow>
        (let w1 = (if i > 0 then delay (Some 100) w else w)
         in case fetchArtistAlbums useSearchOptimization searchApi spotifyApi now tz a w1 of
              (Inr albums, w2) \<Rightarrow>
                (Inr (if length albums > 0 then batchResults @ albums else batchResults), w2)
            | (Inl error, w2) \<Rightarrow>
                (case message error of
                   None \<Rightarrow> (Inl (TypeError_undefined ''includes''), w2)
                 | Some m \<Rightarrow>
                     if includes_str m ''Rate limited'' then
                       (let waitTime = parseInt (case firstDigits m of
                                                   None \<Rightarrow> ''60'' | Some d \<Rightarrow> d);
                            w3 = delay (map_option (\<lambda>n. n * 1000) waitTime) w2
                        in case fetchArtistAlbums useSearchOptimization searchApi spotifyApi
                                  now tz a w3 of
                             (Inr albums, w4) \<Rightarrow>
                               (Inr (if length albums > 0 then batchResults @ albums
                                     else batchResults), w4)
                           | (Inl retryError, w4) \<Rightarrow> (Inr batchResults, w4))
                     else (Inr batchResults, w2))))"

fun processBatch_loop ::
  "bool \<Rightarrow> search_api \<Rightarrow> api \<Rightarrow> int \<Rightarrow> int \<Rightarrow> artist list \<Rightarrow> nat \<Rightarrow> album list \<times> world
     \<Rightarrow> (js_error + album list) \<times> world" where
  "processBatch_loop useSearchOptimization searchApi spotifyApi now tz [] i st = (Inr (fst st), snd st)"
| "processBatch_loop useSearchOptimization searchApi spotifyApi now tz (a # as) i st =
     (case processArtist useSearchOptimization searchApi spotifyApi now tz i a st of
        (Inl error, w') \<Rightarrow> (Inl error, w')
      | (Inr batchResults, w') \<Rightarrow>
          processBatch_loop useSearchOptimization searchApi spotifyApi now tz as (Suc i)
            (batchResults, w'))"

definition processBatch ::
  "bool \<Rightarrow> search_api \<Rightarrow> api \<Rightarrow> int \<Rightarrow> int \<Rightarrow> artist list \<Rightarrow> world
     \<Rightarrow> (js_error + album list) \<times> world" where
  "processBatch useSearchOptimization searchApi spotifyApi now tz artistBatch w =
     processBatch_loop useSearchOptimization searchApi spotifyApi now tz artistBatch 0 ([], w)"

subsection \<open>fetchAllArtistAlbums\<close>

text \<open>
  The loop over the batches of 10, on the pair of \<open>allAlbums\<close> and the world. An exception
  of \<open>processBatch\<close> leaves the loop with the albums collected by then. The progress bar
  and the console output are left out.
\<close>

function batches ::
  "bool \<Rightarrow> search_api \<Rightarrow> api \<Rightarrow> int \<Rightarrow> int \<Rightarrow> artist list \<Rightarrow> nat \<Rightarrow> album list \<times> world
     \<Rightarrow> ((js_error \<times> album list) + album list) \<times> world" where
  "batches useSearchOptimization searchApi spotifyApi now tz artists i st =
     (if i < length artists then
        (case st of (allAlbums, w) \<Rightarrow>
           (let totalBatches = (length artists + 9) div 10;
                batchNumber = i div 10 + 1;
                artistBatch = take 10 (drop i artists)
            in case processBatch useSearchOptimization searchApi spotifyApi now tz artistBatch w of
                 (Inl error, w1) \<Rightarrow> (Inl (error, allAlbums), w1)
               | (Inr batchAlbums, w1) \<Rightarrow>
                   batches useSearchOptimization searchApi spotifyApi now tz artists (i + 10)
                     (allAlbums @ batchAlbums,
                      if batchNumber < totalBatches then delay (Some 200) w1 else w1)))
      else (Inr (fst st), snd st))"
  by pat_completeness auto
termination
  by (relation "measure (\<lambda>(useSearchOptimization, searchApi, spotifyApi, now, tz, artists, i, st).
                           length artists - i)") auto

declare batches.simps [simp del]

text \<open>
  The \<open>try\<close> around the loop and its \<open>catch\<close>: after an exception the albums collected so
  far are returned when there are any, else the exception is thrown on.
\<close>

definition fetchAllArtistAlbums ::
  "bool \<Rightarrow> search_api \<Rightarrow> api \<Rightarrow> int \<Rightarrow> int \<Rightarrow> artist list \<Rightarrow> world
     \<Rightarrow> (js_error + album list) \<times> world" where
  "fetchAllArtistAlbums useSearchOptimization searchApi spotifyApi now tz artists w =
     (case batches useSearchOptimization searchApi spotifyApi now tz artists 0 ([], w) of
        (Inr allAlbums, w') \<Rightarrow> (Inr allAlbums, w')
      | (Inl (error, allAlbums), w') \<Rightarrow>
          if length allAlbums > 0 then (Inr allAlbums, w') else (Inl error, w'))"

subsection \<open>The union of the successes\<close>

text \<open>
  Follows the words of the specification: the run returns the union of the successes.
  \<open>retrieval\<close> is the retrieval of one artist when \<open>n\<close> requests have been made before:
  its outcome and the number of requests made after it. An artist succeeds when its
  retrieval returns, or when it fails as rate limited and its one retry returns;
  \<open>successOf\<close> gives the releases of a success, none for a failure.
  \<open>unionOfSuccesses\<close> joins them in the order of the artists.
\<close>

definition retrieval ::
  "bool \<Rightarrow> search_api \<Rightarrow> api \<Rightarrow> int \<Rightarrow> int \<Rightarrow> artist \<Rightarrow> nat \<Rightarrow> (js_error + album list) \<times> nat" where
  "retrieval useSearchOptimization searchApi spotifyApi now tz a n =
     (case fetchArtistAlbums useSearchOptimization searchApi spotifyApi now tz a
             (replicate n (Request [] 0)) of
        (outcome, w') \<Rightarrow> (outcome, nreq w'))"

definition isRateLimited :: "js_error \<Rightarrow> bool" where
  "isRateLimited e = (case message e of None \<Rightarrow> False | Some m \<Rightarrow> includes_str m ''Rate limited'')"

definition successOf ::
  "bool \<Rightarrow> search_api \<Rightarrow> api \<Rightarrow> int \<Rightarrow> int \<Rightarrow> artist \<Rightarrow> nat \<Rightarrow> album list \<times> nat" where
  "successOf useSearchOptimization searchApi spotifyApi now tz a n =
     (case retrieval useSearchOptimization searchApi spotifyApi now tz a n of
        (Inr albums, n1) \<Rightarrow> (albums, n1)
      | (Inl e, n1) \<Rightarrow>
          if isRateLimited e then
            (case retrieval useSearchOptimization searchApi spotifyApi now tz a n1 of
               (Inr albums, n2) \<Rightarrow> (albums, n2)
             | (Inl e', n2) \<Rightarrow> ([], n2))
          else ([], n1))"

fun unionOfSuccesses ::
  "bool \<Rightarrow> search_api \<Rightarrow> api \<Rightarrow> int \<Rightarrow> int \<Rightarrow> artist list \<Rightarrow> nat \<Rightarrow> album list \<times> nat" where
  "unionOfSuccesses useSearchOptimization searchApi spotifyApi now tz [] n = ([], n)"
| "unionOfSuccesses useSearchOptimization searchApi spotifyApi now tz (a # as) n =
     (case successOf useSearchOptimization searchApi spotifyApi now tz a n of
        (albums, n1) \<Rightarrow>
          (case unionOfSuccesses useSearchOptimization searchApi spotifyApi now tz as n1 of
             (others, n2) \<Rightarrow> (albums @ others, n2)))"

section \<open>Sample data\<close>

text \<open>Sample artists: one followed artist, and the same artist as the liked tracks report it.\<close>

definition artistA :: source_artist where
  "artistA = \<lparr> src_id = Some ''a1'', src_name = ''Alpha'', src_spotify_url = ''u1'',
               src_genres = Some [''rock''], src_popularity = Some 70, src_followers = Some 1000 \<rparr>"

definition artistA_liked :: source_artist where
  "artistA_liked = \<lparr> src_id = Some ''a1'', src_name = ''Alpha (liked)'', src_spotify_url = ''u2'',
               src_genres = None, src_popularity = None, src_followers = None \<rparr>"

text \<open>A second artist, found in liked tracks and saved albums only.\<close>

definition artistB :: source_artist where
  "artistB = \<lparr> src_id = Some ''b2'', src_name = ''Beta'', src_spotify_url = ''u3'',
               src_genres = None, src_popularity = Some 0, src_followers = None \<rparr>"

text \<open>The albums of the release filter's test file, and a clock reading on 2025-08-22.\<close>

definition mkAlbum :: "string \<Rightarrow> string \<Rightarrow> string \<Rightarrow> int \<Rightarrow> string option \<Rightarrow> album" where
  "mkAlbum i n t k d =
     \<lparr> album_id = i, name = n, album_type = t, total_tracks = k, release_date = d,
       spotify_url = [], artist_id = [], artist_name = [] \<rparr>"

definition testAlbums :: "album list" where
  "testAlbums =
     [ mkAlbum ''t1'' ''Test Album'' ''album'' 12 (Some ''2025-08-20''),
       mkAlbum ''t2'' ''Test EP'' ''single'' 5 (Some ''2025-08-15''),
       mkAlbum ''t3'' ''Another EP'' ''single'' 3 (Some ''2025-08-18''),
       mkAlbum ''t4'' ''Test Single'' ''single'' 1 (Some ''2025-08-21''),
       mkAlbum ''t5'' ''Old Album'' ''album'' 10 (Some ''2025-08-01''),
       mkAlbum ''t6'' ''Year Only Release'' ''album'' 8 (Some ''2025''),
       mkAlbum ''t7'' ''Month Precision Release'' ''album'' 9 (Some ''2025-08''),
       mkAlbum ''t8'' ''Recent Test EP'' ''single'' 3 (Some ''2025-08-19'') ]"

definition testNow :: int where
  "testNow = 1755864000000"

text \<open>Releases with an unparsable, a day, a month and a missing date.\<close>

definition unparsableAlbum :: album where
  "unparsableAlbum = mkAlbum ''u1'' ''Unparsable'' ''album'' 9 (Some ''abc'')"

definition datedAlbum :: album where
  "datedAlbum = mkAlbum ''d1'' ''Dated'' ''album'' 9 (Some ''2025-08-15'')"

definition monthAlbum :: album where
  "monthAlbum = mkAlbum ''m1'' ''Month'' ''album'' 9 (Some ''2025-08'')"

definition undatedAlbum :: album where
  "undatedAlbum = mkAlbum ''n1'' ''Undated'' ''album'' 9 None"

text \<open>
  Scenario B: a discography of 60 releases served in pages of 20, newest first; releases
  1 to 24 are two days old and the rest fifteen days.
\<close>

fun decimal :: "nat \<Rightarrow> string" where
  "decimal n = (if n < 10 then [char_of (48 + n)] else decimal (n div 10) @ [char_of (48 + n mod 10)])"

declare decimal.simps [simp del]

definition mkArtist :: "string \<Rightarrow> string \<Rightarrow> artist" where
  "mkArtist i n = \<lparr> aid = i, aname = n, aurl = [], sources = [''followed''],
                    genres = None, popularity = None, followers = None \<rparr>"

definition mkItem :: "string \<Rightarrow> string \<Rightarrow> api_album" where
  "mkItem i d = \<lparr> item_id = i, item_name = ''Release '' @ i, item_album_type = ''album'',
                  item_total_tracks = 10, item_release_date = Some d, item_spotify_url = [],
                  item_artists = [] \<rparr>"

definition catalogueB :: "api_album list" where
  "catalogueB = map (\<lambda>k. mkItem (decimal k) (if k \<le> 24 then ''2025-08-20'' else ''2025-08-07''))
                  [1 ..< 61]"

definition scenarioB_api :: api where
  "scenarioB_api n i off = Inr \<lparr> items = take 20 (drop off catalogueB), total = 60 \<rparr>"

text \<open>Scenario C: three artists; the second request, for artist X, is rate limited.\<close>

definition artistX :: artist where
  "artistX = mkArtist ''x'' ''X''"

definition artistP :: artist where
  "artistP = mkArtist ''p'' ''P''"

definition artistQ :: artist where
  "artistQ = mkArtist ''q'' ''Q''"

definition rateLimited :: "string \<Rightarrow> js_error" where
  "rateLimited h = \<lparr> statusCode = Some 429, headers = Some (Some h), message = Some ''Too Many Requests'' \<rparr>"

definition serverError :: js_error where
  "serverError = \<lparr> statusCode = Some 500, headers = Some None, message = Some ''Internal Server Error'' \<rparr>"

definition onePage :: "string \<Rightarrow> js_error + page" where
  "onePage i = Inr \<lparr> items = [mkItem i ''2025-08-20''], total = 1 \<rparr>"

definition scenarioC_api :: "bool \<Rightarrow> api" where
  "scenarioC_api retrySucceeds n i off =
     (if i = ''x'' then
        (if n = 1 then Inl (rateLimited ''2'')
         else if retrySucceeds then onePage ''rx'' else Inl (rateLimited ''2''))
      else onePage (''r'' @ i))"

definition failing_api :: api where
  "failing_api n i off = Inl serverError"

definition pageB :: "nat \<Rightarrow> page" where
  "pageB off = \<lparr> items = take 20 (drop off catalogueB), total = 60 \<rparr>"

definition undatedItem :: api_album where
  "undatedItem = \<lparr> item_id = ''n1'', item_name = ''Undated'', item_album_type = ''album'',
                   item_total_tracks = 9, item_release_date = None, item_spotify_url = [],
                   item_artists = [] \<rparr>"

definition undated_api :: api where
  "undated_api n i off = Inr \<lparr> items = undatedItem # take 19 catalogueB, total = 60 \<rparr>"

definition emptyPage_api :: api where
  "emptyPage_api n i off =
     (if i = ''x'' then Inr \<lparr> items = [], total = 0 \<rparr> else onePage (''r'' @ i))"

text \<open>
  A search endpoint that answers every query with a server error, so that each retrieval
  falls back to the paginated scan after its two queries, and an albums endpoint whose
  third answer is rate limited.
\<close>

definition failing_search :: search_api where
  "failing_search n query = Inl serverError"

definition scenarioS_api :: api where
  "scenarioS_api n i off = (if n = 2 then Inl (rateLimited ''2'') else onePage (''r'' @ i))"

text \<open>
  A search endpoint that finds one release of artist P for the \<open>tag:new\<close> query and
  nothing for any other query.
\<close>

definition searchItem :: api_album where
  "searchItem = \<lparr> item_id = ''sp'', item_name = ''Release sp'', item_album_type = ''album'',
                  item_total_tracks = 10, item_release_date = Some ''2025-08-20'',
                  item_spotify_url = [], item_artists = [''p'', ''z''] \<rparr>"

definition tagNew_search :: search_api where
  "tagNew_search n query =
     (if includes_str query ''tag:new'' then Inr (Some [searchItem, mkItem ''other'' ''2025-08-20''])
      else Inr None)"

text \<open>An error object without a message, and an albums endpoint that throws it for artist X.\<close>

definition bareError :: js_error where
  "bareError = \<lparr> statusCode = Some 401, headers = Some None, message = None \<rparr>"

definition bare_api :: api where
  "bare_api n i off = (if i = ''x'' then Inl bareError else onePage (''r'' @ i))"

text \<open>An albums endpoint whose first answer is rate limited for 2147484 seconds.\<close>

definition longLimit_api :: api where
  "longLimit_api n i off = (if n = 0 then Inl (rateLimited ''2147484'') else onePage (''r'' @ i))"

section \<open>Properties\<close>

subsection \<open>Strings\<close>

lemma char_eq_iff_nat: "(c = d) \<longleftrightarrow> (of_char c :: nat) = of_char d"
  by simp

lemma of_char_lower:
  "(of_char (toLowerChar c) :: nat) =
   (if (65 \<le> (of_char c :: nat) \<and> (of_char c :: nat) \<le> 90)
       \<or> (192 \<le> (of_char c :: nat) \<and> (of_char c :: nat) \<le> 222 \<and> (of_char c :: nat) \<noteq> 215)
    then of_char c + 32 else of_char c)"
  by (simp add: toLowerChar_def Let_def)

lemma toLowerChar_e: "toLowerChar c = CHR ''e'' \<longleftrightarrow> c = CHR ''e'' \<or> c = CHR ''E''"
  unfolding char_eq_iff_nat [of _ "CHR ''e''"] char_eq_iff_nat [of _ "CHR ''E''"] of_char_lower
  by auto

lemma toLowerChar_p: "toLowerChar c = CHR ''p'' \<longleftrightarrow> c = CHR ''p'' \<or> c = CHR ''P''"
  unfolding char_eq_iff_nat [of _ "CHR ''p''"] char_eq_iff_nat [of _ "CHR ''P''"] of_char_lower
  by auto

lemma startsWith_iff: "startsWith s t \<longleftrightarrow> (\<exists>post. s = t @ post)"
  unfolding startsWith_def
  by (metis append_eq_conv_conj append_take_drop_id)

lemma includes_iff: "includes_str s t \<longleftrightarrow> (\<exists>pre post. s = pre @ t @ post)"
proof (induction s)
  case Nil
  then show ?case by auto
next
  case (Cons c cs)
  show ?case
  proof
    assume "includes_str (c # cs) t"
    then consider "startsWith (c # cs) t" | "includes_str cs t" by auto
    then show "\<exists>pre post. c # cs = pre @ t @ post"
    proof cases
      case 1
      then obtain post where "c # cs = t @ post" by (auto simp: startsWith_iff)
      then have "c # cs = [] @ t @ post" by simp
      then show ?thesis by blast
    next
      case 2
      then obtain pre post where "cs = pre @ t @ post" using Cons.IH by auto
      then have "c # cs = (c # pre) @ t @ post" by simp
      then show ?thesis by blast
    qed
  next
    assume "\<exists>pre post. c # cs = pre @ t @ post"
    then obtain pre post where eq: "c # cs = pre @ t @ post" by auto
    show "includes_str (c # cs) t"
    proof (cases pre)
      case Nil
      with eq have "startsWith (c # cs) t" by (auto simp: startsWith_iff)
      then show ?thesis by simp
    next
      case (Cons p pre')
      with eq have "cs = pre' @ t @ post" by simp
      then have "includes_str cs t" using Cons.IH by blast
      then show ?thesis by simp
    qed
  qed
qed

lemma includes_map_pair:
  "includes_str (map f s) [a, b] \<longleftrightarrow>
   (\<exists>pre c1 c2 post. s = pre @ [c1, c2] @ post \<and> f c1 = a \<and> f c2 = b)"
proof
  assume "includes_str (map f s) [a, b]"
  then obtain pre post where "map f s = pre @ [a, b] @ post"
    unfolding includes_iff by blast
  then obtain pre' mid post' where s: "s = pre' @ mid @ post'"
    and mid: "map f mid = [a, b]"
    by (metis map_eq_append_conv)
  from mid obtain c1 c2 where "mid = [c1, c2]" "f c1 = a" "f c2 = b"
    by (auto simp: map_eq_Cons_conv)
  with s show "\<exists>pre c1 c2 post. s = pre @ [c1, c2] @ post \<and> f c1 = a \<and> f c2 = b"
    by blast
next
  assume "\<exists>pre c1 c2 post. s = pre @ [c1, c2] @ post \<and> f c1 = a \<and> f c2 = b"
  then obtain pre c1 c2 post where s: "s = pre @ [c1, c2] @ post"
    and "f c1 = a" "f c2 = b"
    by blast
  then have "map f s = map f pre @ [a, b] @ map f post"
    by simp
  then show "includes_str (map f s) [a, b]"
    unfolding includes_iff by blast
qed

lemma toLowerCase_ep:
  "includes_str (toLowerCase s) ''ep'' \<longleftrightarrow>
   (\<exists>pre c1 c2 post. s = pre @ [c1, c2] @ post
      \<and> (c1 = CHR ''e'' \<or> c1 = CHR ''E'') \<and> (c2 = CHR ''p'' \<or> c2 = CHR ''P''))"
  unfolding toLowerCase_def includes_map_pair toLowerChar_e toLowerChar_p ..

lemma isDigit_not_dash: "isDigit c \<Longrightarrow> c \<noteq> CHR ''-''"
  by (auto simp: isDigit_def)

lemma isDigit_not_plus: "isDigit c \<Longrightarrow> c \<noteq> CHR ''+''"
  by (auto simp: isDigit_def)

lemma isDigit_not_space: "isDigit c \<Longrightarrow> \<not> isWhiteSpace c"
  by (auto simp: isDigit_def isWhiteSpace_def)

lemma digitValue_range: "isDigit c \<Longrightarrow> 0 \<le> digitValue c \<and> digitValue c \<le> 9"
  by (auto simp: isDigit_def digitValue_def)

lemma split_dash_nodash: "CHR ''-'' \<notin> set s \<Longrightarrow> split_dash s = [s]"
  by (induction s) auto

lemma split_dash_append:
  "CHR ''-'' \<notin> set s \<Longrightarrow> split_dash (s @ CHR ''-'' # t) = s # split_dash t"
  by (induction s) auto

lemma digits_nodash: "digits Z \<Longrightarrow> CHR ''-'' \<notin> set Z"
  using isDigit_not_dash by (auto simp: digits_def list_all_iff)

lemma parseInt_digits:
  assumes "digits Z"
  shows "parseInt Z = Some (decimalValue Z)"
proof -
  from assms obtain c cs where Z: "Z = c # cs" and c: "isDigit c" and all: "list_all isDigit Z"
    by (cases Z) (auto simp: digits_def)
  have dw: "dropWhile isWhiteSpace Z = Z"
    using Z c isDigit_not_space by simp
  have tw: "takeWhile isDigit Z = Z"
    using all by (simp add: list_all_iff)
  have nz: "Z \<noteq> []" and h1: "hd Z \<noteq> CHR ''-''" and h2: "hd Z \<noteq> CHR ''+''"
    using Z c isDigit_not_dash isDigit_not_plus by auto
  show ?thesis
    unfolding parseInt_def Let_def dw using nz h1 h2 by (simp add: tw)
qed

subsection \<open>Classification\<close>

text \<open>
  C5. A release is classified as album or EP exactly when its type is \<open>album\<close> (whatever
  its track count), or its type is \<open>single\<close> and it has at least four tracks or its name
  contains \<open>e\<close> or \<open>E\<close> directly followed by \<open>p\<close> or \<open>P\<close>. Every other type is excluded, and so
  is a single with no tracks and no such name.
\<close>

theorem isAlbumOrEP_classification:
  "isAlbumOrEP a =
     (album_type a = ''album''
      \<or> (album_type a = ''single''
          \<and> (4 \<le> total_tracks a
              \<or> (\<exists>pre c1 c2 post. name a = pre @ [c1, c2] @ post
                    \<and> (c1 = CHR ''e'' \<or> c1 = CHR ''E'')
                    \<and> (c2 = CHR ''p'' \<or> c2 = CHR ''P'')))))"
  unfolding isAlbumOrEP_def toLowerCase_ep
  by (cases "album_type a = ''album''"; cases "album_type a = ''single''") simp_all

subsection \<open>Partial dates\<close>

lemma digits_nonempty: "digits Z \<Longrightarrow> Z \<noteq> []"
  by (simp add: digits_def)

lemma dateArgs_year:
  assumes "digits Y"
  shows "dateArgs Y = (Some (decimalValue Y), Some 0, Some 1)"
proof -
  have "split_dash Y = [Y]"
    using assms by (simp add: split_dash_nodash digits_nodash)
  then show ?thesis
    using assms by (simp add: dateArgs_def Let_def parseInt_digits)
qed

lemma dateArgs_month:
  assumes "digits Y" "digits M"
  shows "dateArgs (Y @ CHR ''-'' # M) = (Some (decimalValue Y), Some (decimalValue M - 1), Some 1)"
proof -
  have "split_dash (Y @ CHR ''-'' # M) = [Y, M]"
    using assms by (simp add: split_dash_nodash split_dash_append digits_nodash)
  then show ?thesis
    using assms by (simp add: dateArgs_def Let_def parseInt_digits digits_nonempty)
qed

lemma dateArgs_day:
  assumes "digits Y" "digits M" "digits D"
  shows "dateArgs (Y @ CHR ''-'' # M @ CHR ''-'' # D)
     = (Some (decimalValue Y), Some (decimalValue M - 1), Some (decimalValue D))"
proof -
  have "split_dash (Y @ CHR ''-'' # M @ CHR ''-'' # D) = [Y, M, D]"
    using assms by (simp add: split_dash_nodash split_dash_append digits_nodash)
  then show ?thesis
    using assms by (simp add: dateArgs_def Let_def parseInt_digits digits_nonempty)
qed

lemma decimalValue_4:
  assumes "digits Y" "length Y = 4"
  shows "0 \<le> decimalValue Y \<and> decimalValue Y \<le> 9999"
proof -
  from assms(2) obtain a b c d where Y: "Y = [a, b, c, d]"
    by (auto simp: length_Suc_conv numeral_eq_Suc)
  with assms(1) have "isDigit a" "isDigit b" "isDigit c" "isDigit d"
    by (simp_all add: digits_def)
  then show ?thesis
    using digitValue_range [of a] digitValue_range [of b] digitValue_range [of c]
      digitValue_range [of d]
    by (simp add: Y decimalValue_def)
qed

lemma DayFromYear_bounds:
  assumes "0 \<le> y" "y \<le> 9999"
  shows "- 720000 \<le> DayFromYear y \<and> DayFromYear y \<le> 2940000"
proof -
  have a: "- 493 \<le> (y - 1969) div 4 \<and> (y - 1969) div 4 \<le> 2008" using assms by linarith
  have b: "- 20 \<le> (y - 1901) div 100 \<and> (y - 1901) div 100 \<le> 81" using assms by linarith
  have c: "- 5 \<le> (y - 1601) div 400 \<and> (y - 1601) div 400 \<le> 21" using assms by linarith
  have lin: "\<And>p q r :: int. - 493 \<le> p \<and> p \<le> 2008 \<Longrightarrow> - 20 \<le> q \<and> q \<le> 81
      \<Longrightarrow> - 5 \<le> r \<and> r \<le> 21
      \<Longrightarrow> - 720000 \<le> 365 * (y - 1970) + p - q + r
          \<and> 365 * (y - 1970) + p - q + r \<le> 2940000"
    using assms by auto
  show ?thesis
    unfolding DayFromYear_def using lin [OF a b c] .
qed

lemma new_Date_jan1:
  assumes "100 \<le> y" "y \<le> 9999" "\<bar>tz\<bar> \<le> msPerDay"
  shows "new_Date tz (Some y) (Some 0) (Some 1) = Date (Some (msPerDay * DayFromYear y - tz))"
proof -
  have md: "MakeDay y 0 1 = DayFromYear y"
    by (simp add: MakeDay_def monthStart_def)
  have "- 720000 \<le> DayFromYear y \<and> DayFromYear y \<le> 2940000"
    using DayFromYear_bounds [of y] assms by simp
  then have "\<bar>DayFromYear y * 86400000 - tz\<bar> \<le> 8640000000000000"
    using assms(3) unfolding msPerDay_def by linarith
  then show ?thesis
    using assms(1) by (simp add: new_Date_def TimeClip_def md msPerDay_def mult.commute)
qed

lemma new_Date_jan1_2digit:
  assumes "0 \<le> y" "y \<le> 99" "\<bar>tz\<bar> \<le> msPerDay"
  shows "new_Date tz (Some y) (Some 0) (Some 1)
     = Date (Some (msPerDay * DayFromYear (1900 + y) - tz))"
proof -
  have md: "MakeDay (1900 + y) 0 1 = DayFromYear (1900 + y)"
    by (simp add: MakeDay_def monthStart_def)
  have "- 720000 \<le> DayFromYear (1900 + y) \<and> DayFromYear (1900 + y) \<le> 2940000"
    using DayFromYear_bounds [of "1900 + y"] assms by simp
  then have "\<bar>DayFromYear (1900 + y) * 86400000 - tz\<bar> \<le> 8640000000000000"
    using assms(3) unfolding msPerDay_def by linarith
  then show ?thesis
    using assms(1,2) by (simp add: new_Date_def TimeClip_def md msPerDay_def mult.commute)
qed

lemma parseReleaseDate_Some:
  "s \<noteq> [] \<Longrightarrow> dateArgs s = (y, m, d) \<Longrightarrow> parseReleaseDate tz (Some s) = Some (new_Date tz y m d)"
  by (simp add: parseReleaseDate_def falsy_str_def)

text \<open>
  What the parser does with the three shapes. For four digits \<open>Y\<close>, two digits \<open>M\<close> and
  two digits \<open>D\<close>: \<open>Y\<close> parses as \<open>new Date(Y, 0, 1)\<close>, \<open>Y-M\<close> as
  \<open>new Date(Y, M - 1, 1)\<close>, and \<open>Y-M-D\<close> takes all three from the string. For a year
  from 100 on, the instant of a year-only date is local midnight of January the first of
  that year; a year below 100 comes out as 1900 + year.
\<close>

theorem parseReleaseDate_defaults:
  assumes "digits Y" "length Y = 4" "digits M" "length M = 2" "digits D" "length D = 2"
  shows "parseReleaseDate tz (Some Y)
           = Some (new_Date tz (Some (decimalValue Y)) (Some 0) (Some 1))
    \<and> parseReleaseDate tz (Some (Y @ CHR ''-'' # M))
           = Some (new_Date tz (Some (decimalValue Y)) (Some (decimalValue M - 1)) (Some 1))
    \<and> parseReleaseDate tz (Some (Y @ CHR ''-'' # M @ CHR ''-'' # D))
           = Some (new_Date tz (Some (decimalValue Y)) (Some (decimalValue M - 1))
                    (Some (decimalValue D)))
    \<and> (100 \<le> decimalValue Y \<and> \<bar>tz\<bar> \<le> msPerDay \<longrightarrow>
          parseReleaseDate tz (Some Y)
            = Some (Date (Some (msPerDay * DayFromYear (decimalValue Y) - tz))))
    \<and> (decimalValue Y < 100 \<and> \<bar>tz\<bar> \<le> msPerDay \<longrightarrow>
          parseReleaseDate tz (Some Y)
            = Some (Date (Some (msPerDay * DayFromYear (1900 + decimalValue Y) - tz))))"
proof -
  have y: "parseReleaseDate tz (Some Y)
           = Some (new_Date tz (Some (decimalValue Y)) (Some 0) (Some 1))"
    using assms(1) by (intro parseReleaseDate_Some dateArgs_year) (simp add: digits_def)
  have m: "parseReleaseDate tz (Some (Y @ CHR ''-'' # M))
           = Some (new_Date tz (Some (decimalValue Y)) (Some (decimalValue M - 1)) (Some 1))"
    using assms(1,3) by (intro parseReleaseDate_Some dateArgs_month) simp_all
  have d: "parseReleaseDate tz (Some (Y @ CHR ''-'' # M @ CHR ''-'' # D))
           = Some (new_Date tz (Some (decimalValue Y)) (Some (decimalValue M - 1))
                    (Some (decimalValue D)))"
    using assms(1,3,5) by (intro parseReleaseDate_Some dateArgs_day) simp_all
  have r: "0 \<le> decimalValue Y \<and> decimalValue Y \<le> 9999"
    using assms(1,2) by (rule decimalValue_4)
  have big: "100 \<le> decimalValue Y \<and> \<bar>tz\<bar> \<le> msPerDay \<longrightarrow>
          parseReleaseDate tz (Some Y)
            = Some (Date (Some (msPerDay * DayFromYear (decimalValue Y) - tz)))"
    unfolding y using r new_Date_jan1 by simp
  have small: "decimalValue Y < 100 \<and> \<bar>tz\<bar> \<le> msPerDay \<longrightarrow>
          parseReleaseDate tz (Some Y)
            = Some (Date (Some (msPerDay * DayFromYear (1900 + decimalValue Y) - tz)))"
    unfolding y using r new_Date_jan1_2digit by simp
  from y m d big small show ?thesis by (intro conjI)
qed

theorem parseReleaseDate_defaults_witness:
  "digits ''2025'' \<and> length ''2025'' = 4 \<and> digits ''08'' \<and> length ''08'' = 2
   \<and> digits ''15'' \<and> length ''15'' = 2
   \<and> parseReleaseDate 0 (Some ''2025'') = Some (new_Date 0 (Some 2025) (Some 0) (Some 1))
   \<and> parseReleaseDate 0 (Some ''2025-08'') = Some (new_Date 0 (Some 2025) (Some 7) (Some 1))
   \<and> parseReleaseDate 0 (Some ''2025-08-15'') = Some (new_Date 0 (Some 2025) (Some 7) (Some 15))
   \<and> parseReleaseDate 0 (Some ''2025'') = Some (Date (Some 1735689600000))"
proof -
  have h: "digits ''2025''" "length ''2025'' = 4" "digits ''08''" "length ''08'' = 2"
    "digits ''15''" "length ''15'' = 2"
    by code_simp+
  have v: "decimalValue ''2025'' = 2025" "decimalValue ''08'' = 8" "decimalValue ''15'' = 15"
    "msPerDay * DayFromYear 2025 - 0 = 1735689600000" "\<bar>0\<bar> \<le> msPerDay"
    by code_simp+
  show ?thesis
    using parseReleaseDate_defaults [OF h, of 0] h
    unfolding v by (auto simp: msPerDay_def)
qed

text \<open>
  C9. A year-only date is meant to be January the first of that year, but the parser
  hands the year to \<open>new Date\<close>, which reads a year from 0 to 99 as 1900 + year: the
  date \<open>0050\<close> is January the first of 1950, not of the year 50, and \<open>0000\<close> is
  January the first of 1900, so that a release dated \<open>0000\<close> sorts as newer than one
  dated \<open>1850\<close>.
\<close>

theorem parseReleaseDate_two_digit_year:
  "digits ''0050'' \<and> length ''0050'' = 4 \<and> decimalValue ''0050'' = 50
   \<and> parseReleaseDate 0 (Some ''0050'') = Some (Date (Some (msPerDay * DayFromYear 1950)))
   \<and> msPerDay * DayFromYear 1950 \<noteq> msPerDay * DayFromYear 50
   \<and> parseReleaseDate 0 (Some ''0000'') = Some (Date (Some (msPerDay * DayFromYear 1900)))
   \<and> parseReleaseDate 0 (Some ''1850'') = Some (Date (Some (msPerDay * DayFromYear 1850)))
   \<and> array_sort (sortByReleaseDate 0)
         [mkAlbum ''a'' ''A'' ''album'' 9 (Some ''1850''), mkAlbum ''b'' ''B'' ''album'' 9 (Some ''0000'')]
       = [mkAlbum ''b'' ''B'' ''album'' 9 (Some ''0000''), mkAlbum ''a'' ''A'' ''album'' 9 (Some ''1850'')]"
  by code_simp

subsection \<open>Sorting newest first\<close>

lemma set_insert_sorted: "set (insert_sorted f x ys) = insert x (set ys)"
  by (induction ys) auto

lemma mset_insert_sorted: "mset (insert_sorted f x ys) = add_mset x (mset ys)"
  by (induction ys) auto

lemma mset_array_sort: "mset (array_sort f xs) = mset xs"
  by (induction xs) (auto simp: mset_insert_sorted)

lemma set_array_sort: "set (array_sort f xs) = set xs"
  using mset_array_sort [of f xs] by (metis set_mset_mset)

lemma sorted_insert_sorted:
  assumes tr: "\<And>a b c. R a b \<Longrightarrow> R b c \<Longrightarrow> R a c"
    and cmp: "\<And>y. y \<in> set ys \<Longrightarrow> (SortCompare f x y \<le> 0 \<longrightarrow> R x y) \<and> (\<not> SortCompare f x y \<le> 0 \<longrightarrow> R y x)"
    and srt: "sorted_wrt R ys"
  shows "sorted_wrt R (insert_sorted f x ys)"
  using cmp srt
proof (induction ys)
  case Nil
  then show ?case by simp
next
  case (Cons y ys)
  show ?case
  proof (cases "SortCompare f x y \<le> 0")
    case True
    then have xy: "R x y" using Cons.prems(1) by simp
    have "\<forall>z\<in>set ys. R x z"
      using xy Cons.prems(2) tr by auto
    with True xy Cons.prems(2) show ?thesis by simp
  next
    case False
    then have yx: "R y x" using Cons.prems(1) by simp
    have "sorted_wrt R (insert_sorted f x ys)"
      using Cons.IH Cons.prems by simp
    with False yx Cons.prems(2) show ?thesis
      by (simp add: set_insert_sorted)
  qed
qed

lemma sorted_array_sort:
  assumes tr: "\<And>a b c. R a b \<Longrightarrow> R b c \<Longrightarrow> R a c"
    and cmp: "\<And>x y. x \<in> set xs \<Longrightarrow> y \<in> set xs \<Longrightarrow>
        (SortCompare f x y \<le> 0 \<longrightarrow> R x y) \<and> (\<not> SortCompare f x y \<le> 0 \<longrightarrow> R y x)"
  shows "sorted_wrt R (array_sort f xs)"
  using cmp
proof (induction xs)
  case Nil
  show ?case by simp
next
  case (Cons x xs)
  have srt: "sorted_wrt R (array_sort f xs)"
    using Cons by simp
  have "sorted_wrt R (insert_sorted f x (array_sort f xs))"
  proof (rule sorted_insert_sorted [OF tr _ srt])
    fix y assume "y \<in> set (array_sort f xs)"
    then have "y \<in> set (x # xs)" by (simp add: set_array_sort)
    then show "(SortCompare f x y \<le> 0 \<longrightarrow> R x y) \<and> (\<not> SortCompare f x y \<le> 0 \<longrightarrow> R y x)"
      using Cons.prems [of x y] by simp
  qed
  then show ?case by simp
qed

lemma releaseInstant_missing: "falsy_str (release_date a) \<Longrightarrow> releaseInstant tz a = None"
  by (simp add: releaseInstant_def parseReleaseDate_def)

lemma parse_None_iff: "parseReleaseDate tz s = None \<longleftrightarrow> falsy_str s"
  by (simp add: parseReleaseDate_def split: prod.splits)

lemma newestFirst_trans: "newestFirst tz a b \<Longrightarrow> newestFirst tz b c \<Longrightarrow> newestFirst tz a c"
  unfolding newestFirst_def
  by (auto simp: releaseInstant_missing split: option.splits)

lemma sortByReleaseDate_missing_missing:
  "falsy_str (release_date a) \<Longrightarrow> falsy_str (release_date b) \<Longrightarrow> sortByReleaseDate tz a b = Some 0"
  by (simp add: sortByReleaseDate_def parse_None_iff)

lemma sortByReleaseDate_missing_left:
  "falsy_str (release_date a) \<Longrightarrow> \<not> falsy_str (release_date b) \<Longrightarrow> sortByReleaseDate tz a b = Some 1"
  by (simp add: sortByReleaseDate_def parse_None_iff)

lemma sortByReleaseDate_missing_right:
  "\<not> falsy_str (release_date a) \<Longrightarrow> falsy_str (release_date b) \<Longrightarrow> sortByReleaseDate tz a b = Some (- 1)"
  by (simp add: sortByReleaseDate_def parse_None_iff)

lemma sortByReleaseDate_dated:
  assumes "releaseInstant tz a = Some ta" "releaseInstant tz b = Some tb"
  shows "sortByReleaseDate tz a b = Some (tb - ta)"
proof -
  from assms(1) obtain da where a: "parseReleaseDate tz (release_date a) = Some da" "getTime da = Some ta"
    by (auto simp: releaseInstant_def split: option.splits)
  from assms(2) obtain db where b: "parseReleaseDate tz (release_date b) = Some db" "getTime db = Some tb"
    by (auto simp: releaseInstant_def split: option.splits)
  show ?thesis
    by (simp add: sortByReleaseDate_def a b)
qed

lemma SortCompare_newestFirst:
  assumes "datedOrMissing tz x" "datedOrMissing tz y"
  shows "(SortCompare (sortByReleaseDate tz) x y \<le> 0 \<longrightarrow> newestFirst tz x y)
       \<and> (\<not> SortCompare (sortByReleaseDate tz) x y \<le> 0 \<longrightarrow> newestFirst tz y x)"
proof (cases "falsy_str (release_date x)")
  case mx: True
  show ?thesis
  proof (cases "falsy_str (release_date y)")
    case True
    with mx show ?thesis by (simp add: newestFirst_def)
  next
    case False
    with mx show ?thesis
      by (simp add: newestFirst_def SortCompare_def sortByReleaseDate_missing_left)
  qed
next
  case dx: False
  then obtain tx where tx: "releaseInstant tz x = Some tx"
    using assms(1) by (auto simp: datedOrMissing_def)
  show ?thesis
  proof (cases "falsy_str (release_date y)")
    case True
    with dx show ?thesis
      by (simp add: newestFirst_def SortCompare_def sortByReleaseDate_missing_right)
  next
    case False
    then obtain ty where ty: "releaseInstant tz y = Some ty"
      using assms(2) by (auto simp: datedOrMissing_def)
    show ?thesis
      using dx False by (auto simp: newestFirst_def SortCompare_def sortByReleaseDate_dated [OF tx ty] tx ty)
  qed
qed

lemma array_sort_newestFirst:
  assumes "\<And>x. x \<in> set xs \<Longrightarrow> datedOrMissing tz x"
  shows "sorted_wrt (newestFirst tz) (array_sort (sortByReleaseDate tz) xs)"
  by (rule sorted_array_sort) (auto intro: newestFirst_trans SortCompare_newestFirst [THEN conjunct1, rule_format] 
      SortCompare_newestFirst [THEN conjunct2, rule_format] assms)

lemma releaseInstant_eq:
  "release_date a = Some s \<Longrightarrow> s \<noteq> [] \<Longrightarrow> dateArgs s = (Some y, Some m, Some dt)
   \<Longrightarrow> \<not> (0 \<le> y \<and> y \<le> 99)
   \<Longrightarrow> releaseInstant tz a = TimeClip (MakeDay y m dt * msPerDay - tz)"
  by (auto simp: releaseInstant_def parseReleaseDate_def falsy_str_def new_Date_def)

lemma dateArgs_2025_08: "dateArgs ''2025-08'' = (Some 2025, Some 7, Some 1)"
  by code_simp

lemma dateArgs_2025_08_01: "dateArgs ''2025-08-01'' = (Some 2025, Some 7, Some 1)"
  by code_simp

lemma dateArgs_2025_08_15: "dateArgs ''2025-08-15'' = (Some 2025, Some 7, Some 15)"
  by code_simp

lemma MakeDay_2025_08: "MakeDay 2025 7 1 = 20301" "MakeDay 2025 7 15 = 20315"
  by code_simp+

lemma TimeClip_small: "\<bar>t\<bar> \<le> 8640000000000000 \<Longrightarrow> TimeClip t = Some t"
  by (simp add: TimeClip_def)

lemma scenario_D:
  assumes tz: "\<bar>tz\<bar> \<le> msPerDay"
    and m: "release_date m = Some ''2025-08''"
    and f: "release_date f = Some ''2025-08-01''"
    and d: "release_date d = Some ''2025-08-15''"
  shows "releaseInstant tz m = Some (20301 * msPerDay - tz)"
    and "releaseInstant tz f = Some (20301 * msPerDay - tz)"
    and "releaseInstant tz d = Some (20315 * msPerDay - tz)"
proof -
  have b1: "\<bar>20301 * msPerDay - tz\<bar> \<le> 8640000000000000"
    and b2: "\<bar>20315 * msPerDay - tz\<bar> \<le> 8640000000000000"
    using tz unfolding msPerDay_def by linarith+
  show "releaseInstant tz m = Some (20301 * msPerDay - tz)"
    using releaseInstant_eq [OF m _ dateArgs_2025_08, of tz] TimeClip_small [OF b1]
    by (simp add: MakeDay_2025_08)
  show "releaseInstant tz f = Some (20301 * msPerDay - tz)"
    using releaseInstant_eq [OF f _ dateArgs_2025_08_01, of tz] TimeClip_small [OF b1]
    by (simp add: MakeDay_2025_08)
  show "releaseInstant tz d = Some (20315 * msPerDay - tz)"
    using releaseInstant_eq [OF d _ dateArgs_2025_08_15, of tz] TimeClip_small [OF b2]
    by (simp add: MakeDay_2025_08)
qed

text \<open>
  C8. Newest first: a release with a missing or empty date compares after every release
  that has a date string; two releases with valid instants compare by the difference of
  the instants, the later one first; a list of releases that are each validly dated or
  missing is sorted with the dated ones in descending order and the missing ones last.
  A release dated \<open>2025-08\<close> has the instant of \<open>2025-08-01\<close> and sorts after one
  dated \<open>2025-08-15\<close>.
\<close>

theorem sortByReleaseDate_newest_first:
  "(falsy_str (release_date a) \<and> \<not> falsy_str (release_date b) \<longrightarrow>
      sortByReleaseDate tz a b = Some 1 \<and> sortByReleaseDate tz b a = Some (- 1))
   \<and> (releaseInstant tz a = Some ta \<and> releaseInstant tz b = Some tb \<longrightarrow>
        sortByReleaseDate tz a b = Some (tb - ta))
   \<and> ((\<forall>x \<in> set xs. datedOrMissing tz x) \<longrightarrow>
        sorted_wrt (newestFirst tz) (array_sort (sortByReleaseDate tz) xs))
   \<and> (\<bar>tz\<bar> \<le> msPerDay \<and> release_date m = Some ''2025-08''
        \<and> release_date f = Some ''2025-08-01'' \<and> release_date d = Some ''2025-08-15'' \<longrightarrow>
        releaseInstant tz m = releaseInstant tz f
        \<and> sortByReleaseDate tz d m = Some (- (14 * msPerDay))
        \<and> sortByReleaseDate tz m d = Some (14 * msPerDay)
        \<and> array_sort (sortByReleaseDate tz) [m, d] = [d, m])"
proof (intro conjI impI)
  assume "falsy_str (release_date a) \<and> \<not> falsy_str (release_date b)"
  then show "sortByReleaseDate tz a b = Some 1" "sortByReleaseDate tz b a = Some (- 1)"
    by (simp_all add: sortByReleaseDate_missing_left sortByReleaseDate_missing_right)
next
  assume "releaseInstant tz a = Some ta \<and> releaseInstant tz b = Some tb"
  then show "sortByReleaseDate tz a b = Some (tb - ta)"
    by (simp add: sortByReleaseDate_dated)
next
  assume "\<forall>x \<in> set xs. datedOrMissing tz x"
  then show "sorted_wrt (newestFirst tz) (array_sort (sortByReleaseDate tz) xs)"
    by (intro array_sort_newestFirst) simp
next
  assume h: "\<bar>tz\<bar> \<le> msPerDay \<and> release_date m = Some ''2025-08''
        \<and> release_date f = Some ''2025-08-01'' \<and> release_date d = Some ''2025-08-15''"
  then have im: "releaseInstant tz m = Some (20301 * msPerDay - tz)"
    and "releaseInstant tz f = Some (20301 * msPerDay - tz)"
    and id: "releaseInstant tz d = Some (20315 * msPerDay - tz)"
    using scenario_D [of tz m f d] by simp_all
  then show "releaseInstant tz m = releaseInstant tz f" by simp
  show dm: "sortByReleaseDate tz d m = Some (- (14 * msPerDay))"
    unfolding sortByReleaseDate_dated [OF id im] by simp
  show md: "sortByReleaseDate tz m d = Some (14 * msPerDay)"
    unfolding sortByReleaseDate_dated [OF im id] by simp
  show "array_sort (sortByReleaseDate tz) [m, d] = [d, m]"
    by (simp add: SortCompare_def md msPerDay_def)
qed

theorem sortByReleaseDate_newest_first_witness:
  "sortByReleaseDate 0 undatedAlbum datedAlbum = Some 1
   \<and> sortByReleaseDate 0 datedAlbum undatedAlbum = Some (- 1)
   \<and> sortByReleaseDate 0 datedAlbum monthAlbum = Some (- 1209600000)
   \<and> array_sort (sortByReleaseDate 0) [undatedAlbum, monthAlbum, datedAlbum]
       = [datedAlbum, monthAlbum, undatedAlbum]
   \<and> sorted_wrt (newestFirst 0)
       (array_sort (sortByReleaseDate 0) [undatedAlbum, monthAlbum, datedAlbum])"
proof -
  have e: "sortByReleaseDate 0 undatedAlbum datedAlbum = Some 1"
    "sortByReleaseDate 0 datedAlbum undatedAlbum = Some (- 1)"
    "sortByReleaseDate 0 datedAlbum monthAlbum = Some (- 1209600000)"
    "array_sort (sortByReleaseDate 0) [undatedAlbum, monthAlbum, datedAlbum]
       = [datedAlbum, monthAlbum, undatedAlbum]"
    by code_simp+
  have ok: "\<forall>x \<in> set [undatedAlbum, monthAlbum, datedAlbum]. datedOrMissing 0 x"
    by code_simp
  show ?thesis
    using sortByReleaseDate_newest_first [of undatedAlbum datedAlbum 0 "- 1" 1
        "[undatedAlbum, monthAlbum, datedAlbum]" monthAlbum datedAlbum datedAlbum] e ok
    by blast
qed

text \<open>
  A date string that does not parse gives an invalid date, not a missing one: the
  comparator returns \<open>NaN\<close> against a dated release, and the sort leaves the unparsable
  release in front of it.
\<close>

theorem sortByReleaseDate_unparsable_counterexample:
  "release_date unparsableAlbum = Some ''abc''
   \<and> parseReleaseDate 0 (release_date unparsableAlbum) = Some (Date None)
   \<and> releaseInstant 0 datedAlbum = Some 1755216000000
   \<and> sortByReleaseDate 0 unparsableAlbum datedAlbum = None
   \<and> array_sort (sortByReleaseDate 0) [unparsableAlbum, datedAlbum]
       = [unparsableAlbum, datedAlbum]"
  by code_simp

subsection \<open>Filtering\<close>

lemma isRecent_dated:
  assumes "isRecentRelease now tz r d"
  shows "\<not> falsy_str (release_date r) \<and> (\<exists>t. releaseInstant tz r = Some t)"
proof -
  from assms obtain rd where rd: "parseReleaseDate tz (release_date r) = Some rd"
    and ge: "date_ge rd (new_Date_ms (now - d * 24 * 60 * 60 * 1000))"
    by (auto simp: isRecentRelease_def Let_def split: option.splits)
  from ge obtain t where "getTime rd = Some t"
    by (auto simp: date_ge_def split: option.splits)
  with rd show ?thesis
    by (auto simp: releaseInstant_def parseReleaseDate_def)
qed

lemma filterReleases_set:
  "set (filterReleases now tz albums d) = {r \<in> set albums. isAlbumOrEP r \<and> isRecentRelease now tz r d}"
  by (auto simp: filterReleases_def set_array_sort)

text \<open>
  C3. The filter returns exactly the input releases that are album or EP and recent at
  the clock reading, each as often as it occurs in the input, sorted newest first.
\<close>

theorem filterReleases_filter_sort:
  "(\<forall>r \<in> set (filterReleases now tz albums d). isAlbumOrEP r \<and> isRecentRelease now tz r d)
   \<and> mset (filterReleases now tz albums d)
       = mset (filter (\<lambda>r. isAlbumOrEP r \<and> isRecentRelease now tz r d) albums)
   \<and> sorted_wrt (\<lambda>a b. \<exists>ta tb. releaseInstant tz a = Some ta \<and> releaseInstant tz b = Some tb
                          \<and> tb \<le> ta)
       (filterReleases now tz albums d)"
proof (intro conjI)
  show "\<forall>r \<in> set (filterReleases now tz albums d). isAlbumOrEP r \<and> isRecentRelease now tz r d"
    by (simp add: filterReleases_set)
  show "mset (filterReleases now tz albums d)
       = mset (filter (\<lambda>r. isAlbumOrEP r \<and> isRecentRelease now tz r d) albums)"
    by (simp add: filterReleases_def mset_array_sort conj_commute)
  have dated: "\<And>x. x \<in> set (filterReleases now tz albums d)
      \<Longrightarrow> \<not> falsy_str (release_date x) \<and> (\<exists>t. releaseInstant tz x = Some t)"
    using isRecent_dated by (auto simp: filterReleases_set)
  have "sorted_wrt (newestFirst tz) (filterReleases now tz albums d)"
    unfolding filterReleases_def
    by (rule array_sort_newestFirst) (auto simp: datedOrMissing_def dest: isRecent_dated)
  then show "sorted_wrt (\<lambda>a b. \<exists>ta tb. releaseInstant tz a = Some ta
        \<and> releaseInstant tz b = Some tb \<and> tb \<le> ta) (filterReleases now tz albums d)"
  proof (rule sorted_wrt_mono_rel [rotated])
    fix a b
    assume "a \<in> set (filterReleases now tz albums d)" "b \<in> set (filterReleases now tz albums d)"
      and nf: "newestFirst tz a b"
    then obtain ta tb where "\<not> falsy_str (release_date b)" "releaseInstant tz a = Some ta"
      "releaseInstant tz b = Some tb"
      using dated by blast
    with nf show "\<exists>ta tb. releaseInstant tz a = Some ta \<and> releaseInstant tz b = Some tb \<and> tb \<le> ta"
      by (simp add: newestFirst_def)
  qed
qed

theorem filterReleases_filter_sort_witness:
  "map name (filterReleases testNow 0 testAlbums 10)
     = [''Test Album'', ''Recent Test EP'', ''Another EP'', ''Test EP'']
   \<and> sorted_wrt (\<lambda>a b. \<exists>ta tb. releaseInstant 0 a = Some ta \<and> releaseInstant 0 b = Some tb
                          \<and> tb \<le> ta)
       (filterReleases testNow 0 testAlbums 10)"
proof -
  have "map name (filterReleases testNow 0 testAlbums 10)
     = [''Test Album'', ''Recent Test EP'', ''Another EP'', ''Test EP'']"
    by code_simp
  then show ?thesis
    using filterReleases_filter_sort [of testNow 0 testAlbums 10] by blast
qed

text \<open>
  There is no deduplication by release id: a release that occurs twice in the input
  occurs twice in the output.
\<close>

theorem filterReleases_dedup_counterexample:
  "map album_id (filterReleases testNow 0 [datedAlbum, datedAlbum] 10) = [''d1'', ''d1'']
   \<and> \<not> distinct (map album_id (filterReleases testNow 0 [datedAlbum, datedAlbum] 10))"
  by code_simp

subsection \<open>Artist merging\<close>

lemma map_fst_mutate: "map fst (mutate k f m) = map fst m"
  by (induction m) auto

lemma map_of_mutate:
  "map_of (mutate k f m) j = (if j = k then map_option f (map_of m k) else map_of m j)"
  by (induction m) auto

lemma list_all_mutate:
  "list_all P m \<Longrightarrow> (\<And>v. map_of m k = Some v \<Longrightarrow> P (k, v) \<Longrightarrow> P (k, f v))
     \<Longrightarrow> list_all P (mutate k f m)"
  by (induction m) auto

lemma map_of_list_all: "list_all P m \<Longrightarrow> map_of m k = Some v \<Longrightarrow> P (k, v)"
  by (induction m) (auto split: if_splits)

lemma wf_mutate_push:
  assumes "wf_map m" "map_of m i = Some e" "s \<notin> set (sources e)"
  shows "wf_map (mutate i (\<lambda>e. e\<lparr>sources := sources e @ [s]\<rparr>) m)"
proof -
  have "list_all (\<lambda>(k, v). aid v = k \<and> distinct (sources v))
          (mutate i (\<lambda>e. e\<lparr>sources := sources e @ [s]\<rparr>) m)"
    using assms by (intro list_all_mutate) (auto simp: wf_map_def)
  then show ?thesis
    using assms(1) by (simp add: wf_map_def map_fst_mutate)
qed

lemma wf_append_new:
  assumes "wf_map m" "map_of m i = None"
  shows "wf_map (m @ [(i, enhancedArtist i s a)])"
  using assms by (auto simp: wf_map_def map_of_eq_None_iff enhancedArtist_def)

lemma wf_addArtist: "wf_map m \<Longrightarrow> wf_map (addArtist s m a)"
  unfolding addArtist_def
  by (auto split: option.splits intro: wf_mutate_push wf_append_new)

lemma wf_foldl: "wf_map m \<Longrightarrow> wf_map (foldl (addArtist s) m as)"
  by (induction as arbitrary: m) (auto simp: wf_addArtist)

lemma wf_addArtistsFromSource: "wf_map m \<Longrightarrow> wf_map (addArtistsFromSource as s m)"
  by (simp add: addArtistsFromSource_def wf_foldl)

lemma wf_Nil: "wf_map []"
  by (simp add: wf_map_def)

lemma wf_aid: "wf_map m \<Longrightarrow> map aid (map snd m) = map fst m"
  by (induction m) (auto simp: wf_map_def)

lemma wf_sources: "wf_map m \<Longrightarrow> a \<in> set (map snd m) \<Longrightarrow> distinct (sources a)"
  by (auto simp: wf_map_def list_all_iff)

lemma valid_ids_Nil: "valid_ids [] = {}"
  by (simp add: valid_ids_def)

lemma valid_ids_Cons:
  "valid_ids (a # as) =
     (case src_id a of None \<Rightarrow> {} | Some i \<Rightarrow> if i = [] then {} else {i}) \<union> valid_ids as"
  by (auto simp: valid_ids_def split: option.splits)

lemma keys_mutate: "fst ` set (mutate k f m) = fst ` set m"
  using map_fst_mutate [of k f m, THEN arg_cong, of set] by simp

lemma keys_addArtist:
  "fst ` set (addArtist s m a) =
     fst ` set m \<union> (case src_id a of None \<Rightarrow> {} | Some i \<Rightarrow> if i = [] then {} else {i})"
proof (cases "src_id a")
  case None
  then show ?thesis by (simp add: addArtist_def)
next
  case (Some i)
  show ?thesis
  proof (cases "map_of m i")
    case None
    with Some show ?thesis by (simp add: addArtist_def)
  next
    case (Some e)
    then have "i \<in> fst ` set m"
      by (metis domI dom_map_of_conv_image_fst)
    with Some \<open>src_id a = Some i\<close> show ?thesis
      by (auto simp: addArtist_def keys_mutate)
  qed
qed

lemma keys_foldl:
  "fst ` set (foldl (addArtist s) m as) = fst ` set m \<union> valid_ids as"
proof (induction as arbitrary: m)
  case Nil
  show ?case by (simp add: valid_ids_Nil)
next
  case (Cons a as)
  show ?case
    unfolding foldl.simps Cons.IH keys_addArtist valid_ids_Cons by blast
qed

lemma keys_addArtistsFromSource:
  "fst ` set (addArtistsFromSource as s m) = fst ` set m \<union> valid_ids as"
  by (simp add: addArtistsFromSource_def keys_foldl valid_ids_Nil)

lemma addArtist_present:
  assumes "map_of m i = Some old"
  shows "map_of (addArtist src m a) i =
     Some (old\<lparr>sources := (if src_id a = Some i \<and> i \<noteq> [] \<and> src \<notin> set (sources old)
                              then sources old @ [src] else sources old)\<rparr>)"
proof (cases "src_id a")
  case None
  with assms show ?thesis by (simp add: addArtist_def)
next
  case (Some j)
  show ?thesis
  proof (cases "j = i")
    case True
    with Some assms show ?thesis
      by (auto simp: addArtist_def map_of_mutate)
  next
    case False
    with Some assms show ?thesis
      by (auto simp: addArtist_def map_of_mutate map_add_def split: option.splits)
  qed
qed

lemma foldl_present:
  "map_of m i = Some old \<Longrightarrow>
   map_of (foldl (addArtist src) m as) i =
     Some (old\<lparr>sources := (if i \<in> valid_ids as \<and> src \<notin> set (sources old)
                              then sources old @ [src] else sources old)\<rparr>)"
proof (induction as arbitrary: m old)
  case Nil
  then show ?case by (simp add: valid_ids_Nil)
next
  case (Cons a as)
  let ?old' = "old\<lparr>sources := (if src_id a = Some i \<and> i \<noteq> [] \<and> src \<notin> set (sources old)
                              then sources old @ [src] else sources old)\<rparr>"
  have step: "map_of (addArtist src m a) i = Some ?old'"
    using Cons.prems by (rule addArtist_present)
  show ?case
    unfolding foldl.simps Cons.IH [OF step] valid_ids_Cons
    by (auto split: option.splits)
qed

lemma wf_combined:
  "wf_map (addArtistsFromSource s ''saved_albums''
            (addArtistsFromSource l ''liked_tracks'' (addArtistsFromSource f ''followed'' [])))"
  by (intro wf_addArtistsFromSource wf_Nil)

lemma addArtist_absent_other:
  assumes "map_of m i = None" "src_id a \<noteq> Some i \<or> i = []"
  shows "map_of (addArtist src m a) i = None"
proof (cases "src_id a")
  case None
  with assms show ?thesis by (simp add: addArtist_def)
next
  case (Some j)
  show ?thesis
  proof (cases "j = []")
    case True
    with Some assms show ?thesis by (simp add: addArtist_def)
  next
    case False
    with Some assms have "j \<noteq> i" by auto
    with Some assms False show ?thesis
      by (auto simp: addArtist_def map_of_mutate map_add_def split: option.splits)
  qed
qed

lemma addArtist_absent_new:
  assumes "map_of m i = None" "src_id a = Some i" "i \<noteq> []"
  shows "map_of (addArtist src m a) i = Some (enhancedArtist i src a)"
  using assms by (simp add: addArtist_def map_add_def)

lemma foldl_absent:
  "map_of m i = None \<Longrightarrow> i \<in> valid_ids as \<Longrightarrow>
   \<exists>e. map_of (foldl (addArtist src) m as) i = Some e \<and> sources e = [src]"
proof (induction as arbitrary: m)
  case Nil
  then show ?case by (simp add: valid_ids_Nil)
next
  case (Cons a as)
  show ?case
  proof (cases "src_id a = Some i \<and> i \<noteq> []")
    case True
    then have "map_of (addArtist src m a) i = Some (enhancedArtist i src a)"
      using Cons.prems(1) by (simp add: addArtist_absent_new)
    then show ?thesis
      using foldl_present [of "addArtist src m a" i "enhancedArtist i src a" src as]
      by (simp add: enhancedArtist_def)
  next
    case False
    then have n: "map_of (addArtist src m a) i = None"
      using Cons.prems(1) by (intro addArtist_absent_other) auto
    have "i \<in> valid_ids as"
      using Cons.prems(2) False by (auto simp: valid_ids_Cons split: option.splits if_splits)
    then show ?thesis
      using Cons.IH [OF n] by simp
  qed
qed

lemma map_of_None_keys: "map_of m i = None \<longleftrightarrow> i \<notin> fst ` set m"
  by (simp add: map_of_eq_None_iff)

lemma sources_addArtistsFromSource:
  "map_option sources (map_of (addArtistsFromSource as src m) i) =
     (case map_of m i of
        Some old \<Rightarrow> Some (if i \<in> valid_ids as \<and> src \<notin> set (sources old)
                           then sources old @ [src] else sources old)
      | None \<Rightarrow> if i \<in> valid_ids as then Some [src] else None)"
proof (cases "map_of m i")
  case (Some old)
  have "map_of (addArtistsFromSource as src m) i =
     Some (old\<lparr>sources := (if i \<in> valid_ids as \<and> src \<notin> set (sources old)
                              then sources old @ [src] else sources old)\<rparr>)"
    using foldl_present [OF Some, of src as] Some
    by (simp add: addArtistsFromSource_def valid_ids_Nil)
  then show ?thesis
    using Some by simp
next
  case None
  show ?thesis
  proof (cases "i \<in> valid_ids as")
    case True
    then have "as \<noteq> []" by (auto simp: valid_ids_Nil)
    then show ?thesis
      using foldl_absent [OF None True, of src] None True
      by (auto simp: addArtistsFromSource_def)
  next
    case False
    have "i \<notin> fst ` set (addArtistsFromSource as src m)"
      using None False by (simp add: keys_addArtistsFromSource map_of_None_keys)
    then have "map_of (addArtistsFromSource as src m) i = None"
      by (simp add: map_of_None_keys)
    then show ?thesis
      using None False by simp
  qed
qed

lemma wf_map_of:
  assumes "wf_map m" "a \<in> set (map snd m)"
  shows "map_of m (aid a) = Some a"
proof -
  from assms(2) obtain k where k: "(k, a) \<in> set m" by auto
  with assms(1) have "aid a = k"
    by (auto simp: wf_map_def list_all_iff)
  moreover have "map_of m k = Some a"
    using assms(1) k by (intro map_of_is_SomeI) (simp_all add: wf_map_def)
  ultimately show ?thesis by simp
qed

lemma tags_distinct:
  "''followed'' \<noteq> ''liked_tracks''" "''followed'' \<noteq> ''saved_albums''"
  "''liked_tracks'' \<noteq> ''saved_albums''"
  by simp_all

lemma combine_sources:
  assumes "a \<in> set (combineArtistSources f l s)"
  shows "sources a =
       (if aid a \<in> valid_ids f then [''followed''] else [])
     @ (if aid a \<in> valid_ids l then [''liked_tracks''] else [])
     @ (if aid a \<in> valid_ids s then [''saved_albums''] else [])"
proof -
  let ?m1 = "addArtistsFromSource f ''followed'' []"
  let ?m2 = "addArtistsFromSource l ''liked_tracks'' ?m1"
  let ?m3 = "addArtistsFromSource s ''saved_albums'' ?m2"
  let ?i = "aid a"
  have a: "map_of ?m3 ?i = Some a"
    using assms wf_combined [of s l f] by (intro wf_map_of) (simp_all add: combineArtistSources_def)
  have s1: "map_option sources (map_of ?m1 ?i) = (if ?i \<in> valid_ids f then Some [''followed''] else None)"
    by (simp add: sources_addArtistsFromSource)
  have s2: "map_option sources (map_of ?m2 ?i) =
      (if ?i \<in> valid_ids f
       then Some ([''followed''] @ (if ?i \<in> valid_ids l then [''liked_tracks''] else []))
       else if ?i \<in> valid_ids l then Some [''liked_tracks''] else None)"
  proof (cases "map_of ?m1 ?i")
    case None
    with s1 show ?thesis
      by (simp add: sources_addArtistsFromSource [of l] split: if_splits)
  next
    case (Some old)
    with s1 have "sources old = [''followed'']" "?i \<in> valid_ids f"
      by (simp_all split: if_splits)
    with Some show ?thesis
      by (simp add: sources_addArtistsFromSource [of l])
  qed
  have s3: "map_option sources (map_of ?m3 ?i) =
      (case map_of ?m2 ?i of
        Some old \<Rightarrow> Some (if ?i \<in> valid_ids s \<and> ''saved_albums'' \<notin> set (sources old)
                           then sources old @ [''saved_albums''] else sources old)
      | None \<Rightarrow> if ?i \<in> valid_ids s then Some [''saved_albums''] else None)"
    by (rule sources_addArtistsFromSource)
  show ?thesis
  proof (cases "map_of ?m2 ?i")
    case None
    with s2 have "?i \<notin> valid_ids f" "?i \<notin> valid_ids l"
      by (simp_all split: if_splits)
    with s3 None a show ?thesis
      by (simp split: if_splits)
  next
    case (Some old)
    with s2 have o: "sources old =
        (if ?i \<in> valid_ids f then [''followed''] else [])
      @ (if ?i \<in> valid_ids l then [''liked_tracks''] else [])"
      by (simp split: if_splits)
    have "''saved_albums'' \<notin> set (sources old)"
      unfolding o by simp
    with s3 Some a o show ?thesis
      by (simp split: if_splits)
  qed
qed

text \<open>
  C6. Merging deduplicates by artist id across all sources: the output has one entry per
  id, its ids are exactly the non-empty ids of the three lists, and no entry repeats a
  source tag. Each entry carries exactly the tags of the sources in which its id occurs,
  in the order followed, liked tracks, saved albums. The same artist twice in one source
  gives one entry with that one tag; the same id in the followed list and in the liked
  tracks gives one entry with both tags.
\<close>

theorem combineArtistSources_dedup:
  "distinct (map aid (combineArtistSources f l s))
   \<and> set (map aid (combineArtistSources f l s)) = valid_ids f \<union> valid_ids l \<union> valid_ids s
   \<and> (\<forall>a \<in> set (combineArtistSources f l s). distinct (sources a))
   \<and> (\<forall>a \<in> set (combineArtistSources f l s).
         sources a =
             (if aid a \<in> valid_ids f then [''followed''] else [])
           @ (if aid a \<in> valid_ids l then [''liked_tracks''] else [])
           @ (if aid a \<in> valid_ids s then [''saved_albums''] else []))
   \<and> (src_id x = Some i \<and> i \<noteq> [] \<longrightarrow>
        map snd (addArtistsFromSource [x, x] src []) = [enhancedArtist i src x]
        \<and> sources (enhancedArtist i src x) = [src])
   \<and> (src_id x = Some i \<and> src_id y = Some i \<and> i \<noteq> [] \<longrightarrow>
        combineArtistSources [x] [y] []
          = [(enhancedArtist i ''followed'' x)\<lparr>sources := [''followed'', ''liked_tracks'']\<rparr>])"
proof (intro conjI)
  let ?m = "addArtistsFromSource s ''saved_albums''
            (addArtistsFromSource l ''liked_tracks'' (addArtistsFromSource f ''followed'' []))"
  have out: "combineArtistSources f l s = map snd ?m"
    by (simp add: combineArtistSources_def)
  have wf: "wf_map ?m" by (rule wf_combined)
  have ids: "map aid (combineArtistSources f l s) = map fst ?m"
    unfolding out using wf by (rule wf_aid)
  show "distinct (map aid (combineArtistSources f l s))"
    unfolding ids using wf by (simp add: wf_map_def)
  have "set (map fst ?m) = valid_ids f \<union> valid_ids l \<union> valid_ids s"
    by (simp add: keys_addArtistsFromSource Un_commute Un_left_commute)
  then show "set (map aid (combineArtistSources f l s))
      = valid_ids f \<union> valid_ids l \<union> valid_ids s"
    unfolding ids .
  show "\<forall>a \<in> set (combineArtistSources f l s). distinct (sources a)"
    unfolding out using wf wf_sources by blast
  show "\<forall>a \<in> set (combineArtistSources f l s).
         sources a =
             (if aid a \<in> valid_ids f then [''followed''] else [])
           @ (if aid a \<in> valid_ids l then [''liked_tracks''] else [])
           @ (if aid a \<in> valid_ids s then [''saved_albums''] else [])"
    using combine_sources by blast
  show "src_id x = Some i \<and> i \<noteq> [] \<longrightarrow>
        map snd (addArtistsFromSource [x, x] src []) = [enhancedArtist i src x]
        \<and> sources (enhancedArtist i src x) = [src]"
    by (simp add: addArtistsFromSource_def addArtist_def enhancedArtist_def)
  show "src_id x = Some i \<and> src_id y = Some i \<and> i \<noteq> [] \<longrightarrow>
        combineArtistSources [x] [y] []
          = [(enhancedArtist i ''followed'' x)\<lparr>sources := [''followed'', ''liked_tracks'']\<rparr>]"
    by (simp add: combineArtistSources_def addArtistsFromSource_def addArtist_def
        enhancedArtist_def)
qed

text \<open>
  C7. First seen wins: for an id already in the map, adding a source list changes at most
  the \<open>sources\<close> of the stored record, by appending the source's tag when the id occurs
  in the list and the tag is not there yet; id, name, url, genres, popularity and
  followers stay as they were.
\<close>

theorem addArtistsFromSource_frame:
  assumes "map_of m i = Some old"
  shows "\<exists>new. map_of (addArtistsFromSource artists src m) i = Some new
      \<and> aid new = aid old \<and> aname new = aname old \<and> aurl new = aurl old
      \<and> genres new = genres old \<and> popularity new = popularity old
      \<and> followers new = followers old
      \<and> sources new = (if i \<in> valid_ids artists \<and> src \<notin> set (sources old)
                         then sources old @ [src] else sources old)"
proof -
  have "map_of (addArtistsFromSource artists src m) i =
     Some (old\<lparr>sources := (if i \<in> valid_ids artists \<and> src \<notin> set (sources old)
                              then sources old @ [src] else sources old)\<rparr>)"
    using foldl_present [OF assms, of src artists] assms
    by (simp add: addArtistsFromSource_def valid_ids_Nil)
  then show ?thesis by simp
qed

theorem combineArtistSources_dedup_witness:
  "map (\<lambda>a. (aid a, sources a))
       (combineArtistSources [artistA, artistA] [artistB, artistA_liked] [artistB])
     = [(''a1'', [''followed'', ''liked_tracks'']), (''b2'', [''liked_tracks'', ''saved_albums''])]
   \<and> distinct (map aid (combineArtistSources [artistA, artistA] [artistB, artistA_liked] [artistB]))
   \<and> set (map aid (combineArtistSources [artistA, artistA] [artistB, artistA_liked] [artistB]))
        = valid_ids [artistA, artistA] \<union> valid_ids [artistB, artistA_liked] \<union> valid_ids [artistB]
   \<and> map sources (map snd (addArtistsFromSource [artistA, artistA] ''followed'' [])) = [[''followed'']]
   \<and> map sources (combineArtistSources [artistA] [artistA_liked] [])
        = [[''followed'', ''liked_tracks'']]"
proof -
  have e: "map (\<lambda>a. (aid a, sources a))
       (combineArtistSources [artistA, artistA] [artistB, artistA_liked] [artistB])
     = [(''a1'', [''followed'', ''liked_tracks'']), (''b2'', [''liked_tracks'', ''saved_albums''])]"
    "map sources (map snd (addArtistsFromSource [artistA, artistA] ''followed'' [])) = [[''followed'']]"
    "map sources (combineArtistSources [artistA] [artistA_liked] []) = [[''followed'', ''liked_tracks'']]"
    by (simp_all add: artistA_def artistA_liked_def artistB_def combineArtistSources_def
        addArtistsFromSource_def addArtist_def enhancedArtist_def)
  show ?thesis
    using combineArtistSources_dedup [of "[artistA, artistA]" "[artistB, artistA_liked]" "[artistB]"
        artistA "''a1''" "''followed''" artistA_liked] e
    by blast
qed

theorem addArtistsFromSource_frame_witness:
  "map_of [(''a1'', enhancedArtist ''a1'' ''followed'' artistA)] ''a1''
      = Some (enhancedArtist ''a1'' ''followed'' artistA)
   \<and> (\<exists>new. map_of (addArtistsFromSource [artistA_liked] ''liked_tracks''
                 [(''a1'', enhancedArtist ''a1'' ''followed'' artistA)]) ''a1'' = Some new
        \<and> aid new = ''a1'' \<and> aname new = ''Alpha'' \<and> aurl new = ''u1''
        \<and> genres new = Some [''rock'']
        \<and> popularity new = Some 70 \<and> followers new = Some 1000
        \<and> sources new = [''followed'', ''liked_tracks''])"
proof -
  let ?old = "enhancedArtist ''a1'' ''followed'' artistA"
  have h: "map_of [(''a1'', ?old)] ''a1'' = Some ?old"
    by simp
  have v: "''a1'' \<in> valid_ids [artistA_liked]"
    by (simp add: valid_ids_def artistA_liked_def)
  have s: "(if ''a1'' \<in> valid_ids [artistA_liked] \<and> ''liked_tracks'' \<notin> set (sources ?old)
            then sources ?old @ [''liked_tracks''] else sources ?old)
           = [''followed'', ''liked_tracks'']"
    using v by (simp add: enhancedArtist_def)
  have f: "aid ?old = ''a1''" "aname ?old = ''Alpha''" "aurl ?old = ''u1''"
    "genres ?old = Some [''rock'']" "popularity ?old = Some 70" "followers ?old = Some 1000"
    by (simp_all add: enhancedArtist_def artistA_def truthy_num_def)
  show ?thesis
    using addArtistsFromSource_frame [OF h, of "[artistA_liked]" "''liked_tracks''"] h
    unfolding s f by blast
qed

subsection \<open>Paginated scan\<close>

lemma nreq_Request: "nreq (w @ [Request i off]) = Suc (nreq w)"
  by (simp add: nreq_def)

lemma nreq_Sleep: "nreq (w @ [Sleep ms]) = nreq w"
  by (simp add: nreq_def)

lemma nreq_delay: "nreq (delay ms w) = nreq w"
  by (simp add: delay_def nreq_Sleep)

lemma release_date_toAlbum: "release_date (toAlbum a it) = item_release_date it"
  by (simp add: toAlbum_def)

lemma foundOldAlbum_iff:
  "foundOldAlbum now tz (map (toAlbum a) its)
     \<longleftrightarrow> (\<exists>it \<in> set its. isOlderThanDays now tz (item_release_date it) 10)"
  by (simp add: foundOldAlbum_def list_ex_iff release_date_toAlbum)

lemma scan_stop:
  assumes "spotifyApi (nreq w) (aid a) off = Inr p"
    and "tot = None \<or> int off < the tot"
    and "foundOldAlbum now tz (map (toAlbum a) (items p))"
  shows "scan spotifyApi now tz a tot off acc w
     = (Inr (acc @ map (toAlbum a) (items p)), w @ [Request (aid a) off])"
  using assms by (subst scan.simps) (simp add: getArtistAlbums_def Let_def)

lemma scan_last_page:
  assumes "spotifyApi (nreq w) (aid a) off = Inr p"
    and "tot = None \<or> int off < the tot"
    and "length (items p) < 20"
  shows "scan spotifyApi now tz a tot off acc w
     = (Inr (acc @ map (toAlbum a) (items p)), w @ [Request (aid a) off])"
  using assms by (subst scan.simps) (simp add: getArtistAlbums_def Let_def)

lemma scan_continue:
  assumes "spotifyApi (nreq w) (aid a) off = Inr p"
    and "tot = None \<or> int off < the tot"
    and "\<not> foundOldAlbum now tz (map (toAlbum a) (items p))"
    and "\<not> length (items p) < 20"
  shows "scan spotifyApi now tz a tot off acc w
     = scan spotifyApi now tz a (if tot = None then Some (total p) else tot)
         (off + length (items p)) (acc @ map (toAlbum a) (items p)) (w @ [Request (aid a) off])"
  using assms by (subst scan.simps) (simp add: getArtistAlbums_def Let_def)

lemma scan_error:
  assumes "spotifyApi (nreq w) (aid a) off = Inl e"
    and "tot = None \<or> int off < the tot"
  shows "scan spotifyApi now tz a tot off acc w = (Inl e, w @ [Request (aid a) off])"
  using assms by (subst scan.simps) (simp add: getArtistAlbums_def)

lemma scan_done:
  assumes "\<not> (tot = None \<or> int off < the tot)"
  shows "scan spotifyApi now tz a tot off acc w = (Inr acc, w)"
  by (subst scan.simps) (simp only: assms if_False)

text \<open>
  C1. Scenario B: the first page has 20 releases, none older than 10 days, and declares
  60 in total; of the second page of 20 the first four are not older and the fifth is.
  Then the retrieval makes exactly two requests, at offsets 0 and 20, and returns the 40
  releases of the two pages it fetched, the older ones of the second page included.
\<close>

theorem fetch_early_termination:
  assumes p1: "spotifyApi (nreq w) (aid a) 0 = Inr p1"
    and p2: "spotifyApi (Suc (nreq w)) (aid a) 20 = Inr p2"
    and len: "length (items p1) = 20" "length (items p2) = 20"
    and tot: "total p1 = 60"
    and recent: "\<forall>it \<in> set (items p1 @ take 4 (items p2)).
                   \<not> isOlderThanDays now tz (item_release_date it) 10"
    and old: "isOlderThanDays now tz (item_release_date (items p2 ! 4)) 10"
  shows "fetchArtistAlbumsWithEarlyTermination spotifyApi now tz a w
           = (Inr (map (toAlbum a) (items p1 @ items p2)),
              w @ [Request (aid a) 0, Request (aid a) 20])
       \<and> length (items p1 @ items p2) = 40"
proof -
  have no1: "\<not> foundOldAlbum now tz (map (toAlbum a) (items p1))"
    using recent by (simp add: foundOldAlbum_iff)
  have "items p2 ! 4 \<in> set (items p2)"
    using len(2) by simp
  then have yes2: "foundOldAlbum now tz (map (toAlbum a) (items p2))"
    using old unfolding foundOldAlbum_iff by blast
  have s1: "scan spotifyApi now tz a None 0 [] w
      = scan spotifyApi now tz a (Some 60) 20 (map (toAlbum a) (items p1)) (w @ [Request (aid a) 0])"
    by (subst scan_continue [where p = p1]) (simp_all add: p1 no1 len tot)
  have s2: "scan spotifyApi now tz a (Some 60) 20 (map (toAlbum a) (items p1)) (w @ [Request (aid a) 0])
      = (Inr (map (toAlbum a) (items p1) @ map (toAlbum a) (items p2)),
         (w @ [Request (aid a) 0]) @ [Request (aid a) 20])"
    by (rule scan_stop) (simp_all add: nreq_Request p2 yes2)
  show ?thesis
    using len by (simp add: fetchArtistAlbumsWithEarlyTermination_def s1 s2)
qed

lemma scenarioB_pages: "scenarioB_api n i off = Inr (pageB off)"
  by (simp add: scenarioB_api_def pageB_def)

theorem fetch_early_termination_witness:
  "fetchArtistAlbumsWithEarlyTermination scenarioB_api testNow 0 artistX []
     = (Inr (map (toAlbum artistX) (items (pageB 0) @ items (pageB 20))),
        [Request ''x'' 0, Request ''x'' 20])
   \<and> length (items (pageB 0) @ items (pageB 20)) = 40"
proof -
  have len: "length (items (pageB 0)) = 20" "length (items (pageB 20)) = 20"
    by code_simp+
  have tot: "total (pageB 0) = 60"
    by (simp add: pageB_def)
  have recent: "\<forall>it \<in> set (items (pageB 0) @ take 4 (items (pageB 20))).
                   \<not> isOlderThanDays testNow 0 (item_release_date it) 10"
    by code_simp
  have old: "isOlderThanDays testNow 0 (item_release_date (items (pageB 20) ! 4)) 10"
    by code_simp
  have x: "aid artistX = ''x''"
    by (simp add: artistX_def mkArtist_def)
  show ?thesis
    using fetch_early_termination [of scenarioB_api "[]" artistX "pageB 0" "pageB 20" testNow 0,
        OF scenarioB_pages scenarioB_pages len tot recent old]
    by (simp add: x)
qed

text \<open>
  In scenario B the retrieval returns 40 releases, of which 24 are within the window.
\<close>

theorem fetch_returns_whole_pages_counterexample:
  "(case fetchArtistAlbumsWithEarlyTermination scenarioB_api testNow 0 artistX [] of
      (result, w) \<Rightarrow>
         (map_sum message length result,
          map_sum message
            (\<lambda>albums. length (filter (\<lambda>a. \<not> isOlderThanDays testNow 0 (release_date a) 10) albums))
            result,
          w))
     = (Inr 40, Inr 24, [Request ''x'' 0, Request ''x'' 20])"
  by code_simp

text \<open>
  C10. A release whose date string is missing or empty is old for \<open>isOlderThanDays\<close> and
  not recent for \<open>isRecentRelease\<close>, for every window: the filter never returns it, and a
  page that holds it is the last one the scan requests.
\<close>

theorem missing_date_not_recent:
  assumes "falsy_str (release_date a)"
  shows "isOlderThanDays now tz (release_date a) d
     \<and> \<not> isRecentRelease now tz a d
     \<and> a \<notin> set (filterReleases now tz albums d)
     \<and> (spotifyApi (nreq w) (aid ar) off = Inr p \<and> (tot = None \<or> int off < the tot)
          \<and> a \<in> set (map (toAlbum ar) (items p)) \<longrightarrow>
        scan spotifyApi now tz ar tot off acc w
          = (Inr (acc @ map (toAlbum ar) (items p)), w @ [Request (aid ar) off]))"
proof (intro conjI impI)
  show o: "isOlderThanDays now tz (release_date a) d"
    using assms by (simp add: isOlderThanDays_def)
  show r: "\<not> isRecentRelease now tz a d"
    using assms by (simp add: isRecentRelease_def parse_None_iff [THEN iffD2])
  then show "a \<notin> set (filterReleases now tz albums d)"
    by (simp add: filterReleases_set)
  assume h: "spotifyApi (nreq w) (aid ar) off = Inr p \<and> (tot = None \<or> int off < the tot)
          \<and> a \<in> set (map (toAlbum ar) (items p))"
  have "isOlderThanDays now tz (release_date a) 10"
    using assms by (simp add: isOlderThanDays_def)
  then have "foundOldAlbum now tz (map (toAlbum ar) (items p))"
    using h unfolding foundOldAlbum_def list_ex_iff by blast
  then show "scan spotifyApi now tz ar tot off acc w
          = (Inr (acc @ map (toAlbum ar) (items p)), w @ [Request (aid ar) off])"
    using h by (intro scan_stop) simp_all
qed

theorem missing_date_not_recent_witness:
  "falsy_str (release_date (toAlbum artistX undatedItem))
   \<and> isOlderThanDays testNow 0 (release_date (toAlbum artistX undatedItem)) 10
   \<and> \<not> isRecentRelease testNow 0 (toAlbum artistX undatedItem) 10
   \<and> toAlbum artistX undatedItem
        \<notin> set (filterReleases testNow 0 (toAlbum artistX undatedItem # testAlbums) 10)
   \<and> scan undated_api testNow 0 artistX None 0 [] []
        = (Inr (map (toAlbum artistX) (undatedItem # take 19 catalogueB)), [Request ''x'' 0])"
proof -
  have f: "falsy_str (release_date (toAlbum artistX undatedItem))"
    by (simp add: toAlbum_def undatedItem_def falsy_str_def)
  have x: "aid artistX = ''x''"
    by (simp add: artistX_def mkArtist_def)
  show ?thesis
    using missing_date_not_recent [OF f, of testNow 0 10 "toAlbum artistX undatedItem # testAlbums"
        undated_api "[]" artistX 0 "\<lparr> items = undatedItem # take 19 catalogueB, total = 60 \<rparr>"
        None "[]"] f
    by (simp add: undated_api_def x)
qed

subsection \<open>Rate limits and retries\<close>

lemma prefix_no_digit: "\<forall>c \<in> set ''Rate limited. Retry after ''. \<not> isDigit c"
  by (simp add: isDigit_def)

lemma firstDigits_rateLimitMessage:
  assumes "digits h"
  shows "firstDigits (rateLimitMessage h) = Some h"
proof -
  from assms obtain c cs where h: "h = c # cs" and c: "isDigit c" and all: "\<forall>x \<in> set h. isDigit x"
    by (cases h) (auto simp: digits_def list_all_iff)
  have d: "dropWhile (\<lambda>c. \<not> isDigit c) (rateLimitMessage h) = h @ '' seconds''"
    unfolding rateLimitMessage_def
    using prefix_no_digit h c by (subst dropWhile_append2) auto
  have t: "takeWhile isDigit (h @ '' seconds'') = h"
    using all by (subst takeWhile_append2) (auto simp: isDigit_def)
  show ?thesis
    unfolding firstDigits_def Let_def d t using h by simp
qed

lemma includes_rateLimitMessage: "includes_str (rateLimitMessage h) ''Rate limited''"
proof -
  have "rateLimitMessage h = [] @ ''Rate limited'' @ (''. Retry after '' @ h @ '' seconds'')"
    by (simp add: rateLimitMessage_def)
  then show ?thesis
    unfolding includes_iff by blast
qed

lemma timerDelay_seconds:
  "timerDelay (Some (n * 1000)) = (if 1 \<le> n \<and> n \<le> 2147483 then n * 1000 else 1)"
  by (simp add: timerDelay_def)

lemma fetch_429:
  assumes "scan spotifyApi now tz x None 0 [] w = (Inl e, w2)" "statusCode e = Some 429"
    "headers e = Some (Some h)" "h \<noteq> []"
  shows "fetchArtistAlbumsWithEarlyTermination spotifyApi now tz x w
           = (Inl (new_Error (rateLimitMessage h)), w2)"
  using assms
  by (simp add: fetchArtistAlbumsWithEarlyTermination_def)

lemma processArtist_ok:
  assumes "fetchArtistAlbums u searchApi spotifyApi now tz a (if i > 0 then delay (Some 100) w else w)
             = (Inr albums, w2)"
  shows "processArtist u searchApi spotifyApi now tz i a (acc, w) = (Inr (acc @ albums), w2)"
  using assms by (cases "i > 0") (simp_all add: processArtist_def)

lemma processArtist_throw:
  assumes "fetchArtistAlbums u searchApi spotifyApi now tz a (if i > 0 then delay (Some 100) w else w)
             = (Inl e, w2)"
    and "message e = None"
  shows "processArtist u searchApi spotifyApi now tz i a (acc, w)
           = (Inl (TypeError_undefined ''includes''), w2)"
  using assms by (cases "i > 0") (simp_all add: processArtist_def)

lemma processArtist_other:
  assumes "fetchArtistAlbums u searchApi spotifyApi now tz a (if i > 0 then delay (Some 100) w else w)
             = (Inl e, w2)"
    and "message e = Some m" "\<not> includes_str m ''Rate limited''"
  shows "processArtist u searchApi spotifyApi now tz i a (acc, w) = (Inr acc, w2)"
  using assms by (cases "i > 0") (simp_all add: processArtist_def)

lemma processArtist_retry:
  assumes "fetchArtistAlbums u searchApi spotifyApi now tz a (if i > 0 then delay (Some 100) w else w)
             = (Inl e, w2)"
    and "message e = Some m" "includes_str m ''Rate limited''"
    and "parseInt (case firstDigits m of None \<Rightarrow> ''60'' | Some d \<Rightarrow> d) = waitTime"
  shows "processArtist u searchApi spotifyApi now tz i a (acc, w) =
     (case fetchArtistAlbums u searchApi spotifyApi now tz a
             (delay (map_option (\<lambda>n. n * 1000) waitTime) w2) of
        (Inr albums, w4) \<Rightarrow> (Inr (acc @ albums), w4)
      | (Inl retryError, w4) \<Rightarrow> (Inr acc, w4))"
  using assms
  by (cases "i > 0") (auto simp: processArtist_def Let_def split: prod.splits sum.splits)

lemma processArtist_rate_limited_step:
  assumes f: "fetchArtistAlbums u searchApi spotifyApi now tz x
                (if i > 0 then delay (Some 100) w else w) = (Inl e, w2)"
    and m: "message e = Some (rateLimitMessage h)" and h: "digits h"
  shows "processArtist u searchApi spotifyApi now tz i x (batchResults, w) =
     (case fetchArtistAlbums u searchApi spotifyApi now tz x
             (w2 @ [Sleep (if 1 \<le> decimalValue h \<and> decimalValue h \<le> 2147483
                           then decimalValue h * 1000 else 1)]) of
        (Inr albums, w4) \<Rightarrow> (Inr (batchResults @ albums), w4)
      | (Inl retryError, w4) \<Rightarrow> (Inr batchResults, w4))"
proof -
  have wait: "parseInt (case firstDigits (rateLimitMessage h) of
                          None \<Rightarrow> ''60'' | Some d \<Rightarrow> d) = Some (decimalValue h)"
    by (simp add: firstDigits_rateLimitMessage [OF h] parseInt_digits [OF h])
  have w3: "delay (map_option (\<lambda>n. n * 1000) (Some (decimalValue h))) w2
      = w2 @ [Sleep (if 1 \<le> decimalValue h \<and> decimalValue h \<le> 2147483
                     then decimalValue h * 1000 else 1)]"
    by (simp only: delay_def option.map timerDelay_seconds)
  show ?thesis
    using processArtist_retry [OF f m includes_rateLimitMessage wait, of batchResults]
    unfolding w3 .
qed

lemma processArtist_acc:
  "processArtist u searchApi spotifyApi now tz i a (acc, w)
     = (map_sum id (\<lambda>r. acc @ r) (fst (processArtist u searchApi spotifyApi now tz i a ([], w))),
        snd (processArtist u searchApi spotifyApi now tz i a ([], w)))"
  by (simp add: processArtist_def Let_def split: prod.splits sum.splits option.splits)

lemma processBatch_loop_acc:
  "processBatch_loop u searchApi spotifyApi now tz as i (acc, w)
     = (map_sum id (\<lambda>r. acc @ r) (fst (processBatch_loop u searchApi spotifyApi now tz as i ([], w))),
        snd (processBatch_loop u searchApi spotifyApi now tz as i ([], w)))"
proof (induction as arbitrary: i acc w)
  case Nil
  show ?case by simp
next
  case (Cons a as)
  obtain r w' where p: "processArtist u searchApi spotifyApi now tz i a ([], w) = (r, w')"
    by (cases "processArtist u searchApi spotifyApi now tz i a ([], w)")
  have q: "processArtist u searchApi spotifyApi now tz i a (acc, w) = (map_sum id (\<lambda>r. acc @ r) r, w')"
    using processArtist_acc [of u searchApi spotifyApi now tz i a acc w] p by simp
  show ?case
  proof (cases r)
    case (Inl err)
    then show ?thesis
      unfolding processBatch_loop.simps p q by simp
  next
    case (Inr albums)
    then show ?thesis
      unfolding processBatch_loop.simps p q
      using Cons.IH [of "Suc i" "acc @ albums" w'] Cons.IH [of "Suc i" albums w']
      by (cases "fst (processBatch_loop u searchApi spotifyApi now tz as (Suc i) ([], w'))") simp_all
  qed
qed

lemma processBatch_loop_append:
  "processBatch_loop u searchApi spotifyApi now tz (as @ bs) i st
     = (case processBatch_loop u searchApi spotifyApi now tz as i st of
          (Inl err, w') \<Rightarrow> (Inl err, w')
        | (Inr r, w') \<Rightarrow> processBatch_loop u searchApi spotifyApi now tz bs (i + length as) (r, w'))"
proof (induction as arbitrary: i st)
  case Nil
  show ?case by (cases st) simp
next
  case (Cons a as)
  show ?case
    by (cases "processArtist u searchApi spotifyApi now tz i a st")
       (auto simp: Cons.IH split: sum.splits prod.splits)
qed

lemma processBatch_decompose:
  "processBatch u searchApi spotifyApi now tz (pre @ x # post) w0 =
     (case processBatch u searchApi spotifyApi now tz pre w0 of
        (Inl err, w1) \<Rightarrow> (Inl err, w1)
      | (Inr r1, w1) \<Rightarrow>
     (case processArtist u searchApi spotifyApi now tz (length pre) x ([], w1) of
        (Inl err, w2) \<Rightarrow> (Inl err, w2)
      | (Inr r2, w2) \<Rightarrow>
     (case processBatch_loop u searchApi spotifyApi now tz post (Suc (length pre)) ([], w2) of
        (Inl err, w3) \<Rightarrow> (Inl err, w3)
      | (Inr r3, w3) \<Rightarrow> (Inr (r1 @ r2 @ r3), w3))))"
proof -
  obtain o1 w1 where a: "processBatch_loop u searchApi spotifyApi now tz pre 0 ([], w0) = (o1, w1)"
    by (cases "processBatch_loop u searchApi spotifyApi now tz pre 0 ([], w0)")
  show ?thesis
  proof (cases o1)
    case (Inl err)
    then show ?thesis
      by (simp add: processBatch_def processBatch_loop_append a)
  next
    case r1: (Inr r1)
    obtain o2 w2 where b: "processArtist u searchApi spotifyApi now tz (length pre) x ([], w1) = (o2, w2)"
      by (cases "processArtist u searchApi spotifyApi now tz (length pre) x ([], w1)")
    have b': "processArtist u searchApi spotifyApi now tz (length pre) x (r1, w1)
        = (map_sum id (\<lambda>r. r1 @ r) o2, w2)"
      using processArtist_acc [of u searchApi spotifyApi now tz "length pre" x r1 w1] b by simp
    show ?thesis
    proof (cases o2)
      case (Inl err)
      then show ?thesis
        by (simp add: processBatch_def processBatch_loop_append a r1 b b')
    next
      case r2: (Inr r2)
      obtain o3 w3 where c: "processBatch_loop u searchApi spotifyApi now tz post (Suc (length pre)) ([], w2)
          = (o3, w3)"
        by (cases "processBatch_loop u searchApi spotifyApi now tz post (Suc (length pre)) ([], w2)")
      have c': "processBatch_loop u searchApi spotifyApi now tz post (Suc (length pre)) (r1 @ r2, w2)
          = (map_sum id (\<lambda>r. (r1 @ r2) @ r) o3, w3)"
        using processBatch_loop_acc [of u searchApi spotifyApi now tz post "Suc (length pre)" "r1 @ r2" w2] c
        by simp
      show ?thesis
        by (cases o3) (simp_all add: processBatch_def processBatch_loop_append a r1 b b' r2 c c')
    qed
  qed
qed

text \<open>
  C2. When the retrieval of artist X fails with the module's rate-limit error, the one
  whose message is \<open>Rate limited. Retry after h seconds\<close> with a decimal \<open>h\<close>, the
  scheduler sets the timer to \<open>h\<close> times 1000 milliseconds when \<open>h\<close> is between 1 and
  2147483 (outside this range the timer runs 1 millisecond) and then retrieves X once
  more: the releases of a successful retry are appended to the batch result, a failed
  retry adds nothing, is not recorded, and does not end the batch. The paginated scan
  throws this error for a 429 response whose \<open>retry-after\<close> header is \<open>h\<close>. The batch
  result is the results of the artists before X, of X and of the artists after X, in this
  order, unless one of them throws.
\<close>

theorem processBatch_rate_limit_retry:
  assumes "fetchArtistAlbums useSearchOptimization searchApi spotifyApi now tz x
             (if i > 0 then delay (Some 100) w else w) = (Inl e, w2)"
    and "message e = Some (rateLimitMessage h)" "digits h"
  shows "processArtist useSearchOptimization searchApi spotifyApi now tz i x (batchResults, w) =
     (case fetchArtistAlbums useSearchOptimization searchApi spotifyApi now tz x
             (w2 @ [Sleep (if 1 \<le> decimalValue h \<and> decimalValue h \<le> 2147483
                           then decimalValue h * 1000 else 1)]) of
        (Inr albums, w4) \<Rightarrow> (Inr (batchResults @ albums), w4)
      | (Inl retryError, w4) \<Rightarrow> (Inr batchResults, w4))
   \<and> (scan spotifyApi now tz x None 0 [] v = (Inl e0, v2) \<and> statusCode e0 = Some 429
        \<and> headers e0 = Some (Some h) \<longrightarrow>
      fetchArtistAlbumsWithEarlyTermination spotifyApi now tz x v
          = (Inl (new_Error (rateLimitMessage h)), v2)
        \<and> message (new_Error (rateLimitMessage h)) = Some (rateLimitMessage h))
   \<and> processBatch useSearchOptimization searchApi spotifyApi now tz (pre @ x # post) w0 =
       (case processBatch useSearchOptimization searchApi spotifyApi now tz pre w0 of
          (Inl err, v1) \<Rightarrow> (Inl err, v1)
        | (Inr r1, v1) \<Rightarrow>
       (case processArtist useSearchOptimization searchApi spotifyApi now tz (length pre) x ([], v1) of
          (Inl err, v2) \<Rightarrow> (Inl err, v2)
        | (Inr r2, v2) \<Rightarrow>
       (case processBatch_loop useSearchOptimization searchApi spotifyApi now tz post
               (Suc (length pre)) ([], v2) of
          (Inl err, v3) \<Rightarrow> (Inl err, v3)
        | (Inr r3, v3) \<Rightarrow> (Inr (r1 @ r2 @ r3), v3))))"
proof (intro conjI impI)
  show "processArtist useSearchOptimization searchApi spotifyApi now tz i x (batchResults, w) =
     (case fetchArtistAlbums useSearchOptimization searchApi spotifyApi now tz x
             (w2 @ [Sleep (if 1 \<le> decimalValue h \<and> decimalValue h \<le> 2147483
                           then decimalValue h * 1000 else 1)]) of
        (Inr albums, w4) \<Rightarrow> (Inr (batchResults @ albums), w4)
      | (Inl retryError, w4) \<Rightarrow> (Inr batchResults, w4))"
    using assms by (rule processArtist_rate_limited_step)
next
  assume a: "scan spotifyApi now tz x None 0 [] v = (Inl e0, v2) \<and> statusCode e0 = Some 429
        \<and> headers e0 = Some (Some h)"
  have "h \<noteq> []"
    using assms(3) by (simp add: digits_def)
  then show "fetchArtistAlbumsWithEarlyTermination spotifyApi now tz x v
          = (Inl (new_Error (rateLimitMessage h)), v2)"
    using a fetch_429 [of spotifyApi now tz x v e0 v2 h] by blast
next
  show "message (new_Error (rateLimitMessage h)) = Some (rateLimitMessage h)"
    by (simp add: new_Error_def)
next
  show "processBatch useSearchOptimization searchApi spotifyApi now tz (pre @ x # post) w0 =
       (case processBatch useSearchOptimization searchApi spotifyApi now tz pre w0 of
          (Inl err, v1) \<Rightarrow> (Inl err, v1)
        | (Inr r1, v1) \<Rightarrow>
       (case processArtist useSearchOptimization searchApi spotifyApi now tz (length pre) x ([], v1) of
          (Inl err, v2) \<Rightarrow> (Inl err, v2)
        | (Inr r2, v2) \<Rightarrow>
       (case processBatch_loop useSearchOptimization searchApi spotifyApi now tz post
               (Suc (length pre)) ([], v2) of
          (Inl err, v3) \<Rightarrow> (Inl err, v3)
        | (Inr r3, v3) \<Rightarrow> (Inr (r1 @ r2 @ r3), v3))))"
    by (rule processBatch_decompose)
qed

theorem processBatch_rate_limit_retry_witness:
  "processArtist False failing_search (scenarioC_api False) testNow 0 1 artistX ([], [Request ''p'' 0])
     = (Inr [], [Request ''p'' 0, Sleep 100, Request ''x'' 0, Sleep 2000, Request ''x'' 0])
   \<and> processArtist False failing_search (scenarioC_api True) testNow 0 1 artistX ([], [Request ''p'' 0])
     = (Inr [toAlbum artistX (mkItem ''rx'' ''2025-08-20'')],
        [Request ''p'' 0, Sleep 100, Request ''x'' 0, Sleep 2000, Request ''x'' 0])
   \<and> processArtist True failing_search scenarioS_api testNow 0 0 artistX ([], [])
     = (Inr [toAlbum artistX (mkItem ''rx'' ''2025-08-20'')],
        [Search (searchQueries artistX ! 0), Search (searchQueries artistX ! 1), Request ''x'' 0,
         Sleep 2000,
         Search (searchQueries artistX ! 0), Search (searchQueries artistX ! 1), Request ''x'' 0])
   \<and> fetchArtistAlbumsWithEarlyTermination (scenarioC_api False) testNow 0 artistX
        [Request ''p'' 0, Sleep 100]
     = (Inl (new_Error (rateLimitMessage ''2'')), [Request ''p'' 0, Sleep 100, Request ''x'' 0])
   \<and> map_sum message (map album_id)
        (fst (processBatch False failing_search (scenarioC_api False) testNow 0
                [artistP, artistX, artistQ] []))
     = Inr [''rp'', ''rq'']
   \<and> map_sum message (map album_id)
        (fst (processBatch False failing_search (scenarioC_api True) testNow 0
                [artistP, artistX, artistQ] []))
     = Inr [''rp'', ''rx'', ''rq'']"
proof -
  let ?w = "[Request ''p'' 0]"
  let ?w2 = "[Request ''p'' 0, Sleep 100, Request ''x'' 0]"
  let ?s2 = "[Search (searchQueries artistX ! 0), Search (searchQueries artistX ! 1), Request ''x'' 0]"
  have m: "message (new_Error (rateLimitMessage ''2'')) = Some (rateLimitMessage ''2'')"
    by (simp add: new_Error_def)
  have d: "digits ''2''"
    by code_simp
  have n: "(if 1 \<le> decimalValue ''2'' \<and> decimalValue ''2'' \<le> 2147483
            then decimalValue ''2'' * 1000 else 1) = 2000"
    by code_simp
  have a1: "fetchArtistAlbums False failing_search (scenarioC_api False) testNow 0 artistX
              (if (1::nat) > 0 then delay (Some 100) ?w else ?w)
      = (Inl (new_Error (rateLimitMessage ''2'')), ?w2)"
    and a2: "fetchArtistAlbums False failing_search (scenarioC_api True) testNow 0 artistX
              (if (1::nat) > 0 then delay (Some 100) ?w else ?w)
      = (Inl (new_Error (rateLimitMessage ''2'')), ?w2)"
    and a3: "fetchArtistAlbums True failing_search scenarioS_api testNow 0 artistX
              (if (0::nat) > 0 then delay (Some 100) [] else [])
      = (Inl (new_Error (rateLimitMessage ''2'')), ?s2)"
    by code_simp+
  have r1: "fetchArtistAlbums False failing_search (scenarioC_api False) testNow 0 artistX
              (?w2 @ [Sleep 2000])
      = (Inl (new_Error (rateLimitMessage ''2'')), ?w2 @ [Sleep 2000, Request ''x'' 0])"
    and r2: "fetchArtistAlbums False failing_search (scenarioC_api True) testNow 0 artistX
              (?w2 @ [Sleep 2000])
      = (Inr [toAlbum artistX (mkItem ''rx'' ''2025-08-20'')], ?w2 @ [Sleep 2000, Request ''x'' 0])"
    and r3: "fetchArtistAlbums True failing_search scenarioS_api testNow 0 artistX
              (?s2 @ [Sleep 2000])
      = (Inr [toAlbum artistX (mkItem ''rx'' ''2025-08-20'')], ?s2 @ [Sleep 2000] @ ?s2)"
    by code_simp+
  have sc: "scan (scenarioC_api False) testNow 0 artistX None 0 [] [Request ''p'' 0, Sleep 100]
              = (Inl (rateLimited ''2''), ?w2)
            \<and> statusCode (rateLimited ''2'') = Some 429
            \<and> headers (rateLimited ''2'') = Some (Some ''2'')"
    by code_simp
  have f: "processArtist False failing_search (scenarioC_api False) testNow 0 1 artistX ([], ?w)
     = (Inr [], ?w2 @ [Sleep 2000, Request ''x'' 0])"
    using processBatch_rate_limit_retry [OF a1 m d, where batchResults = "[]", THEN conjunct1]
    unfolding n by (simp only: r1 prod.case sum.case)
  have s: "processArtist False failing_search (scenarioC_api True) testNow 0 1 artistX ([], ?w)
     = (Inr ([] @ [toAlbum artistX (mkItem ''rx'' ''2025-08-20'')]), ?w2 @ [Sleep 2000, Request ''x'' 0])"
    using processBatch_rate_limit_retry [OF a2 m d, where batchResults = "[]", THEN conjunct1]
    unfolding n by (simp only: r2 prod.case sum.case)
  have t: "processArtist True failing_search scenarioS_api testNow 0 0 artistX ([], [])
     = (Inr ([] @ [toAlbum artistX (mkItem ''rx'' ''2025-08-20'')]), ?s2 @ [Sleep 2000] @ ?s2)"
    using processBatch_rate_limit_retry [OF a3 m d, where batchResults = "[]", THEN conjunct1]
    unfolding n by (simp only: r3 prod.case sum.case)
  have o: "fetchArtistAlbumsWithEarlyTermination (scenarioC_api False) testNow 0 artistX
        [Request ''p'' 0, Sleep 100]
     = (Inl (new_Error (rateLimitMessage ''2'')), ?w2)"
    using processBatch_rate_limit_retry [OF a1 m d, THEN conjunct2, THEN conjunct1] sc
    by blast
  have b: "map_sum message (map album_id)
        (fst (processBatch False failing_search (scenarioC_api False) testNow 0
                [artistP, artistX, artistQ] []))
     = Inr [''rp'', ''rq'']"
    "map_sum message (map album_id)
        (fst (processBatch False failing_search (scenarioC_api True) testNow 0
                [artistP, artistX, artistQ] []))
     = Inr [''rp'', ''rx'', ''rq'']"
    by code_simp+
  from f s t o b show ?thesis
    by simp
qed

text \<open>
  Scenario C with a retry that fails again: the batch returns the releases of the two
  other artists and nothing else, the same value as when X has no releases at all. And
  with a \<open>retry-after\<close> of 2147484 seconds the timer runs 1 millisecond.
\<close>

theorem processBatch_silent_failure_counterexample:
  "processBatch False failing_search (scenarioC_api False) testNow 0 [artistP, artistX, artistQ] []
     = (Inr [toAlbum artistP (mkItem ''rp'' ''2025-08-20''),
             toAlbum artistQ (mkItem ''rq'' ''2025-08-20'')],
        [Request ''p'' 0, Sleep 100, Request ''x'' 0, Sleep 2000, Request ''x'' 0,
         Sleep 100, Request ''q'' 0])
   \<and> fst (processBatch False failing_search (scenarioC_api False) testNow 0
             [artistP, artistX, artistQ] [])
     = fst (processBatch False failing_search emptyPage_api testNow 0 [artistP, artistX, artistQ] [])
   \<and> processArtist False failing_search longLimit_api testNow 0 0 artistX ([], [])
     = (Inr [toAlbum artistX (mkItem ''rx'' ''2025-08-20'')],
        [Request ''x'' 0, Sleep 1, Request ''x'' 0])"
  by code_simp

subsection \<open>The aggregate run\<close>

text \<open>
  What a retrieval returns and how many requests it makes depend on the world only
  through the number of requests made before.
\<close>

lemma nreq_Search: "nreq (w @ [Search query]) = Suc (nreq w)"
  by (simp add: nreq_def)

lemma nreq_replicate: "nreq (replicate n (Request [] 0)) = n"
  by (induction n) (simp_all add: nreq_def)

lemma scan_obs_Some:
  assumes "nreq w = nreq w'"
  shows "apsnd nreq (scan spotifyApi now tz a (Some t) off acc w)
       = apsnd nreq (scan spotifyApi now tz a (Some t) off acc w')"
  using assms
proof (induction "nat (t - int off)" arbitrary: off acc w w' rule: less_induct)
  case less
  show ?case
  proof (cases "int off < t")
    case False
    then show ?thesis
      using less.prems by (simp add: scan_done)
  next
    case True
    show ?thesis
    proof (cases "spotifyApi (nreq w) (aid a) off")
      case (Inl e)
      then have "spotifyApi (nreq w') (aid a) off = Inl e"
        using less.prems by simp
      then show ?thesis
        using Inl True less.prems by (simp add: scan_error nreq_Request)
    next
      case (Inr p)
      then have r: "spotifyApi (nreq w) (aid a) off = Inr p" "spotifyApi (nreq w') (aid a) off = Inr p"
        using less.prems by simp_all
      show ?thesis
      proof (cases "foundOldAlbum now tz (map (toAlbum a) (items p))")
        case True
        then show ?thesis
          using r \<open>int off < t\<close> less.prems by (simp add: scan_stop nreq_Request)
      next
        case nf: False
        show ?thesis
        proof (cases "length (items p) < 20")
          case True
          then show ?thesis
            using r \<open>int off < t\<close> less.prems by (simp add: scan_last_page nreq_Request)
        next
          case False
          have m: "nat (t - int (off + length (items p))) < nat (t - int off)"
            using False \<open>int off < t\<close> by linarith
          have n: "nreq (w @ [Request (aid a) off]) = nreq (w' @ [Request (aid a) off])"
            using less.prems by (simp add: nreq_Request)
          have "apsnd nreq (scan spotifyApi now tz a (Some t) (off + length (items p))
                   (acc @ map (toAlbum a) (items p)) (w @ [Request (aid a) off]))
              = apsnd nreq (scan spotifyApi now tz a (Some t) (off + length (items p))
                   (acc @ map (toAlbum a) (items p)) (w' @ [Request (aid a) off]))"
            using m n by (rule less.hyps)
          then show ?thesis
            using r \<open>int off < t\<close> nf False
            by (simp add: scan_continue [where p = p])
        qed
      qed
    qed
  qed
qed

lemma scan_obs_None:
  assumes "nreq w = nreq w'"
  shows "apsnd nreq (scan spotifyApi now tz a None off acc w)
       = apsnd nreq (scan spotifyApi now tz a None off acc w')"
proof (cases "spotifyApi (nreq w) (aid a) off")
  case (Inl e)
  then have "spotifyApi (nreq w') (aid a) off = Inl e"
    using assms by simp
  then show ?thesis
    using Inl assms by (simp add: scan_error nreq_Request)
next
  case (Inr p)
  then have r: "spotifyApi (nreq w) (aid a) off = Inr p" "spotifyApi (nreq w') (aid a) off = Inr p"
    using assms by simp_all
  show ?thesis
  proof (cases "foundOldAlbum now tz (map (toAlbum a) (items p))")
    case True
    then show ?thesis
      using r assms by (simp add: scan_stop nreq_Request)
  next
    case nf: False
    show ?thesis
    proof (cases "length (items p) < 20")
      case True
      then show ?thesis
        using r assms by (simp add: scan_last_page nreq_Request)
    next
      case False
      have n: "nreq (w @ [Request (aid a) off]) = nreq (w' @ [Request (aid a) off])"
        using assms by (simp add: nreq_Request)
      show ?thesis
        using r nf False scan_obs_Some [OF n, of spotifyApi now tz a "total p"]
        by (simp add: scan_continue [where p = p])
    qed
  qed
qed

lemma fetchWithEarlyTermination_obs:
  assumes "nreq w = nreq w'"
  shows "apsnd nreq (fetchArtistAlbumsWithEarlyTermination spotifyApi now tz a w)
       = apsnd nreq (fetchArtistAlbumsWithEarlyTermination spotifyApi now tz a w')"
proof -
  obtain r1 w1 where a: "scan spotifyApi now tz a None 0 [] w = (r1, w1)"
    by (cases "scan spotifyApi now tz a None 0 [] w")
  obtain r2 w2 where b: "scan spotifyApi now tz a None 0 [] w' = (r2, w2)"
    by (cases "scan spotifyApi now tz a None 0 [] w'")
  have "r1 = r2 \<and> nreq w1 = nreq w2"
    using scan_obs_None [OF assms, of spotifyApi now tz a 0 "[]"] a b by simp
  then show ?thesis
    by (simp add: fetchArtistAlbumsWithEarlyTermination_def a b Let_def
        split: sum.splits option.splits)
qed

lemma searchLoop_obs:
  assumes "nreq w = nreq w'"
  shows "apsnd nreq (searchLoop searchApi now tz a qs w)
       = apsnd nreq (searchLoop searchApi now tz a qs w')"
  using assms
proof (induction qs arbitrary: w w')
  case Nil
  then show ?case by simp
next
  case (Cons query rest)
  have n: "nreq (w @ [Search query]) = nreq (w' @ [Search query])"
    using Cons.prems by (simp add: nreq_Search)
  have ih: "apsnd nreq (searchLoop searchApi now tz a rest (w @ [Search query]))
          = apsnd nreq (searchLoop searchApi now tz a rest (w' @ [Search query]))"
    using n by (rule Cons.IH)
  show ?case
    using Cons.prems ih n
    by (simp add: search_def Let_def split: sum.splits)
qed

lemma fetchRecentAlbumsViaSearch_obs:
  assumes "nreq w = nreq w'"
  shows "apsnd nreq (fetchRecentAlbumsViaSearch searchApi spotifyApi now tz a w)
       = apsnd nreq (fetchRecentAlbumsViaSearch searchApi spotifyApi now tz a w')"
proof -
  obtain r1 w1 where a: "searchLoop searchApi now tz a (searchQueries a) w = (r1, w1)"
    by (cases "searchLoop searchApi now tz a (searchQueries a) w")
  obtain r2 w2 where b: "searchLoop searchApi now tz a (searchQueries a) w' = (r2, w2)"
    by (cases "searchLoop searchApi now tz a (searchQueries a) w'")
  have e: "r1 = r2" and n: "nreq w1 = nreq w2"
    using searchLoop_obs [OF assms, of searchApi now tz a "searchQueries a"] a b by simp_all
  show ?thesis
  proof (cases r1)
    case (Inl err)
    then show ?thesis
      using e fetchWithEarlyTermination_obs [OF n, of spotifyApi now tz a]
      by (simp add: fetchRecentAlbumsViaSearch_def a b)
  next
    case (Inr albums)
    then show ?thesis
      using e n by (simp add: fetchRecentAlbumsViaSearch_def a b)
  qed
qed

lemma fetchArtistAlbums_obs:
  assumes "nreq w = nreq w'"
  shows "apsnd nreq (fetchArtistAlbums u searchApi spotifyApi now tz a w)
       = apsnd nreq (fetchArtistAlbums u searchApi spotifyApi now tz a w')"
  using fetchRecentAlbumsViaSearch_obs [OF assms] fetchWithEarlyTermination_obs [OF assms]
  by (simp add: fetchArtistAlbums_def)

lemma fetch_retrieval:
  assumes "fetchArtistAlbums u searchApi spotifyApi now tz a w = (r, w2)"
  shows "retrieval u searchApi spotifyApi now tz a (nreq w) = (r, nreq w2)"
proof -
  have "nreq w = nreq (replicate (nreq w) (Request [] 0))"
    by (simp add: nreq_replicate)
  from fetchArtistAlbums_obs [OF this, of u searchApi spotifyApi now tz a]
  show ?thesis
    using assms by (simp add: retrieval_def split: prod.splits)
qed

text \<open>An error that leaves a retrieval has a message when those of the albums endpoint have.\<close>

lemma scan_error_origin:
  "scan spotifyApi now tz a tot off acc w = (Inl e, w2)
     \<Longrightarrow> \<exists>n i off'. spotifyApi n i off' = Inl e"
proof (induction spotifyApi now tz a tot off acc w rule: scan.induct)
  case (1 spotifyApi now tz a totalAvailable off allAlbums w)
  show ?case
  proof (cases "totalAvailable = None \<or> int off < the totalAvailable")
    case False
    then show ?thesis
      using "1.prems" by (simp add: scan_done)
  next
    case c: True
    show ?thesis
    proof (cases "spotifyApi (nreq w) (aid a) off")
      case (Inl err)
      then show ?thesis
        using "1.prems" c scan_error [of spotifyApi w a off err totalAvailable now tz allAlbums]
        by auto
    next
      case (Inr p)
      show ?thesis
      proof (cases "foundOldAlbum now tz (map (toAlbum a) (items p))")
        case True
        then show ?thesis
          using "1.prems" c Inr by (simp add: scan_stop)
      next
        case nf: False
        show ?thesis
        proof (cases "length (items p) < 20")
          case True
          then show ?thesis
            using "1.prems" c Inr by (simp add: scan_last_page)
        next
          case False
          have g: "getArtistAlbums spotifyApi (aid a) off w = (Inr p, w @ [Request (aid a) off])"
            by (simp add: getArtistAlbums_def Inr)
          have "scan spotifyApi now tz a (if totalAvailable = None then Some (total p) else totalAvailable)
                  (off + length (map (toAlbum a) (items p))) (allAlbums @ map (toAlbum a) (items p))
                  (w @ [Request (aid a) off]) = (Inl e, w2)"
            using "1.prems" c Inr nf False by (simp add: scan_continue [where p = p])
          then show ?thesis
            using "1.IH" [OF c g [symmetric] refl refl refl refl] nf False by simp
        qed
      qed
    qed
  qed
qed

lemma fetchWithEarlyTermination_message:
  assumes H: "\<forall>n i off e. spotifyApi n i off = Inl e \<longrightarrow> message e \<noteq> None"
    and f: "fetchArtistAlbumsWithEarlyTermination spotifyApi now tz a w = (Inl e, w2)"
  shows "message e \<noteq> None"
proof -
  obtain r w1 where s: "scan spotifyApi now tz a None 0 [] w = (r, w1)"
    by (cases "scan spotifyApi now tz a None 0 [] w")
  show ?thesis
  proof (cases r)
    case (Inr albums)
    then show ?thesis
      using f by (simp add: fetchArtistAlbumsWithEarlyTermination_def s)
  next
    case (Inl err)
    then have "message err \<noteq> None"
      using scan_error_origin [of spotifyApi now tz a None 0 "[]" w err w1] s H by blast
    then show ?thesis
      using f Inl
      by (auto simp: fetchArtistAlbumsWithEarlyTermination_def s Let_def new_Error_def
          TypeError_undefined_def split: if_splits option.splits)
  qed
qed

lemma fetchArtistAlbums_message:
  assumes H: "\<forall>n i off e. spotifyApi n i off = Inl e \<longrightarrow> message e \<noteq> None"
    and f: "fetchArtistAlbums u searchApi spotifyApi now tz a w = (Inl e, w2)"
  shows "message e \<noteq> None"
proof (cases u)
  case False
  then show ?thesis
    using f fetchWithEarlyTermination_message [OF H] by (simp add: fetchArtistAlbums_def)
next
  case True
  obtain r w1 where s: "searchLoop searchApi now tz a (searchQueries a) w = (r, w1)"
    by (cases "searchLoop searchApi now tz a (searchQueries a) w")
  show ?thesis
    using f True fetchWithEarlyTermination_message [OF H, of now tz a w1 e w2]
    by (cases r) (simp_all add: fetchArtistAlbums_def fetchRecentAlbumsViaSearch_def s)
qed

text \<open>The scheduler's step for one artist adds the artist's success.\<close>

lemma processArtist_success:
  assumes H: "\<forall>n i off e. spotifyApi n i off = Inl e \<longrightarrow> message e \<noteq> None"
  shows "apsnd nreq (processArtist u searchApi spotifyApi now tz i a (acc, w))
       = (case successOf u searchApi spotifyApi now tz a (nreq w) of
            (albums, n) \<Rightarrow> (Inr (acc @ albums), n))"
proof -
  let ?w1 = "if i > 0 then delay (Some 100) w else w"
  have n1: "nreq ?w1 = nreq w"
    by (simp add: nreq_delay)
  obtain r w2 where f1: "fetchArtistAlbums u searchApi spotifyApi now tz a ?w1 = (r, w2)"
    by (cases "fetchArtistAlbums u searchApi spotifyApi now tz a ?w1")
  have r1: "retrieval u searchApi spotifyApi now tz a (nreq w) = (r, nreq w2)"
    using fetch_retrieval [OF f1] unfolding n1 .
  show ?thesis
  proof (cases r)
    case (Inr albums)
    then show ?thesis
      using processArtist_ok [of u searchApi spotifyApi now tz a i w albums w2 acc] f1 r1
      by (simp add: successOf_def)
  next
    case (Inl e)
    then obtain m where m: "message e = Some m"
      using fetchArtistAlbums_message [OF H, of u searchApi now tz a ?w1 e w2] f1 by auto
    show ?thesis
    proof (cases "includes_str m ''Rate limited''")
      case False
      then show ?thesis
        using processArtist_other [of u searchApi spotifyApi now tz a i w e w2 m acc] f1 r1 Inl m
        by (simp add: successOf_def isRateLimited_def)
    next
      case True
      let ?w3 = "delay (map_option (\<lambda>n. n * 1000)
                   (parseInt (case firstDigits m of None \<Rightarrow> ''60'' | Some d \<Rightarrow> d))) w2"
      have n3: "nreq ?w3 = nreq w2"
        by (rule nreq_delay)
      obtain r' w4 where f2: "fetchArtistAlbums u searchApi spotifyApi now tz a ?w3 = (r', w4)"
        by (cases "fetchArtistAlbums u searchApi spotifyApi now tz a ?w3")
      have r2: "retrieval u searchApi spotifyApi now tz a (nreq w2) = (r', nreq w4)"
        using fetch_retrieval [OF f2] unfolding n3 .
      have p: "processArtist u searchApi spotifyApi now tz i a (acc, w) =
          (case (r', w4) of
             (Inr albums, w4) \<Rightarrow> (Inr (acc @ albums), w4)
           | (Inl retryError, w4) \<Rightarrow> (Inr acc, w4))"
        using processArtist_retry [of u searchApi spotifyApi now tz a i w e w2 m _ acc,
            OF _ m True refl] f1 Inl f2
        by simp
      show ?thesis
        unfolding p using r1 r2 Inl m True
        by (cases r') (simp_all add: successOf_def isRateLimited_def)
    qed
  qed
qed

lemma processBatch_loop_union:
  assumes H: "\<forall>n i off e. spotifyApi n i off = Inl e \<longrightarrow> message e \<noteq> None"
  shows "apsnd nreq (processBatch_loop u searchApi spotifyApi now tz as i (acc, w))
       = (case unionOfSuccesses u searchApi spotifyApi now tz as (nreq w) of
            (albums, n) \<Rightarrow> (Inr (acc @ albums), n))"
proof (induction as arbitrary: i acc w)
  case Nil
  show ?case by simp
next
  case (Cons a as)
  obtain r w' where p: "processArtist u searchApi spotifyApi now tz i a (acc, w) = (r, w')"
    by (cases "processArtist u searchApi spotifyApi now tz i a (acc, w)")
  obtain albums n where s: "successOf u searchApi spotifyApi now tz a (nreq w) = (albums, n)"
    by (cases "successOf u searchApi spotifyApi now tz a (nreq w)")
  have r: "r = Inr (acc @ albums)" and n: "nreq w' = n"
    using processArtist_success [OF H, of u searchApi now tz i a acc w] p s by simp_all
  show ?case
    unfolding processBatch_loop.simps p r unionOfSuccesses.simps s
    using Cons.IH [of "Suc i" "acc @ albums" w'] n
    by (simp split: prod.splits)
qed

lemma unionOfSuccesses_append:
  "unionOfSuccesses u searchApi spotifyApi now tz (xs @ ys) n
     = (case unionOfSuccesses u searchApi spotifyApi now tz xs n of
          (r1, n1) \<Rightarrow>
            (case unionOfSuccesses u searchApi spotifyApi now tz ys n1 of
               (r2, n2) \<Rightarrow> (r1 @ r2, n2)))"
  by (induction xs arbitrary: n) (simp_all split: prod.splits)

lemma batches_union:
  assumes H: "\<forall>n i off e. spotifyApi n i off = Inl e \<longrightarrow> message e \<noteq> None"
  shows "apsnd nreq (batches u searchApi spotifyApi now tz artists i (acc, w))
       = (case unionOfSuccesses u searchApi spotifyApi now tz (drop i artists) (nreq w) of
            (albums, n) \<Rightarrow> (Inr (acc @ albums), n))"
proof (induction "length artists - i" arbitrary: i acc w rule: less_induct)
  case less
  show ?case
  proof (cases "i < length artists")
    case False
    then show ?thesis
      by (subst batches.simps) simp
  next
    case True
    let ?batch = "take 10 (drop i artists)"
    obtain r w1 where p: "processBatch u searchApi spotifyApi now tz ?batch w = (r, w1)"
      by (cases "processBatch u searchApi spotifyApi now tz ?batch w")
    obtain r1 n1 where s1: "unionOfSuccesses u searchApi spotifyApi now tz ?batch (nreq w) = (r1, n1)"
      by (cases "unionOfSuccesses u searchApi spotifyApi now tz ?batch (nreq w)")
    have r: "r = Inr r1" and n: "nreq w1 = n1"
      using processBatch_loop_union [OF H, of u searchApi now tz ?batch 0 "[]" w] p s1
      by (simp_all add: processBatch_def)
    let ?w2 = "if i div 10 + 1 < (length artists + 9) div 10 then delay (Some 200) w1 else w1"
    have n2: "nreq ?w2 = n1"
      using n by (simp add: nreq_delay)
    have unfold: "batches u searchApi spotifyApi now tz artists i (acc, w)
        = batches u searchApi spotifyApi now tz artists (i + 10) (acc @ r1, ?w2)"
      using True by (subst batches.simps) (simp add: p r Let_def)
    have "length artists - (i + 10) < length artists - i"
      using True by simp
    then have ih: "apsnd nreq (batches u searchApi spotifyApi now tz artists (i + 10) (acc @ r1, ?w2))
        = (case unionOfSuccesses u searchApi spotifyApi now tz (drop (i + 10) artists) (nreq ?w2) of
            (albums, n) \<Rightarrow> (Inr ((acc @ r1) @ albums), n))"
      by (rule less)
    have dd: "drop (i + 10) artists = drop 10 (drop i artists)"
      by (simp add: add.commute)
    have split: "drop i artists = ?batch @ drop (i + 10) artists"
      unfolding dd by (simp only: append_take_drop_id)
    have u: "unionOfSuccesses u searchApi spotifyApi now tz (drop i artists) (nreq w)
        = (case unionOfSuccesses u searchApi spotifyApi now tz (drop (i + 10) artists) n1 of
             (r2, n2) \<Rightarrow> (r1 @ r2, n2))"
      by (subst split) (simp add: unionOfSuccesses_append s1)
    show ?thesis
      unfolding unfold ih n2 u by (simp split: prod.splits)
  qed
qed

lemma fetchAll_union:
  assumes H: "\<forall>n i off e. spotifyApi n i off = Inl e \<longrightarrow> message e \<noteq> None"
  shows "fst (fetchAllArtistAlbums u searchApi spotifyApi now tz artists w)
       = Inr (fst (unionOfSuccesses u searchApi spotifyApi now tz artists (nreq w)))"
proof -
  obtain r w' where b: "batches u searchApi spotifyApi now tz artists 0 ([], w) = (r, w')"
    by (cases "batches u searchApi spotifyApi now tz artists 0 ([], w)")
  have "r = Inr (fst (unionOfSuccesses u searchApi spotifyApi now tz artists (nreq w)))"
    using batches_union [OF H, of u searchApi now tz artists 0 "[]" w] b
    by (simp split: prod.splits)
  then show ?thesis
    by (simp add: fetchAllArtistAlbums_def b)
qed

lemma unionOfSuccesses_all_fail:
  assumes "\<forall>a \<in> set artists. \<forall>n. \<exists>e. fst (retrieval u searchApi spotifyApi now tz a n) = Inl e"
  shows "fst (unionOfSuccesses u searchApi spotifyApi now tz artists n) = []"
  using assms
proof (induction artists arbitrary: n)
  case Nil
  show ?case by simp
next
  case (Cons a as)
  have f: "\<And>k. \<exists>e. fst (retrieval u searchApi spotifyApi now tz a k) = Inl e"
    using Cons.prems by simp
  have s: "fst (successOf u searchApi spotifyApi now tz a n) = []"
  proof -
    obtain r n1 where r1: "retrieval u searchApi spotifyApi now tz a n = (r, n1)"
      by (cases "retrieval u searchApi spotifyApi now tz a n")
    obtain r' n2 where r2: "retrieval u searchApi spotifyApi now tz a n1 = (r', n2)"
      by (cases "retrieval u searchApi spotifyApi now tz a n1")
    obtain e e' where "r = Inl e" "r' = Inl e'"
      using f [of n] f [of n1] r1 r2 by auto
    then show ?thesis
      by (simp add: successOf_def r1 r2)
  qed
  have ih: "\<And>k. fst (unionOfSuccesses u searchApi spotifyApi now tz as k) = []"
    using Cons.IH Cons.prems by simp
  show ?case
    using s ih [of "snd (successOf u searchApi spotifyApi now tz a n)"]
    by (auto split: prod.splits)
qed

text \<open>
  C4. Provided every error that the albums endpoint throws carries a message, the
  aggregate run does not fail: it returns the union of the successes, the releases of
  each artist whose retrieval returned, or failed as rate limited and returned at its
  one retry, in the order of the artists, each retrieval taken at the number of requests
  made before it. When every retrieval fails, the run returns the empty list. No list of
  failed artists is returned.
\<close>

theorem fetchAllArtistAlbums_partial_results:
  assumes "\<forall>n i off e. spotifyApi n i off = Inl e \<longrightarrow> message e \<noteq> None"
  shows "fst (fetchAllArtistAlbums useSearchOptimization searchApi spotifyApi now tz artists w)
       = Inr (fst (unionOfSuccesses useSearchOptimization searchApi spotifyApi now tz artists (nreq w)))
   \<and> ((\<forall>a \<in> set artists. \<forall>n. \<exists>e.
          fst (retrieval useSearchOptimization searchApi spotifyApi now tz a n) = Inl e) \<longrightarrow>
        fst (fetchAllArtistAlbums useSearchOptimization searchApi spotifyApi now tz artists w)
          = Inr [])"
  using fetchAll_union [OF assms] unionOfSuccesses_all_fail by simp

lemma failing_api_retrieval:
  "fst (retrieval False searchApi failing_api now tz a n)
     = Inl (new_Error (''Spotify API error for '' @ aname a @ '': Internal Server Error''))"
proof -
  have "scan failing_api now tz a None 0 [] w = (Inl serverError, w @ [Request (aid a) 0])" for w
    by (rule scan_error) (simp_all add: failing_api_def)
  then show ?thesis
    by (simp add: retrieval_def fetchArtistAlbums_def fetchArtistAlbumsWithEarlyTermination_def
        serverError_def)
qed

theorem fetchAllArtistAlbums_partial_results_witness:
  "fst (fetchAllArtistAlbums False failing_search (scenarioC_api True) testNow 0
          [artistP, artistX, artistQ] [])
     = Inr [toAlbum artistP (mkItem ''rp'' ''2025-08-20''),
            toAlbum artistX (mkItem ''rx'' ''2025-08-20''),
            toAlbum artistQ (mkItem ''rq'' ''2025-08-20'')]
   \<and> fst (fetchAllArtistAlbums False failing_search (scenarioC_api False) testNow 0
          [artistP, artistX, artistQ] [])
     = Inr [toAlbum artistP (mkItem ''rp'' ''2025-08-20''),
            toAlbum artistQ (mkItem ''rq'' ''2025-08-20'')]
   \<and> fst (fetchAllArtistAlbums True tagNew_search failing_api testNow 0
          [artistP, artistX, artistQ] [])
     = Inr [toAlbum artistP searchItem]
   \<and> fst (fetchAllArtistAlbums False failing_search failing_api testNow 0
          [artistP, artistX, artistQ] []) = Inr []"
proof -
  have H1: "\<forall>n i off e. scenarioC_api True n i off = Inl e \<longrightarrow> message e \<noteq> None"
    and H2: "\<forall>n i off e. scenarioC_api False n i off = Inl e \<longrightarrow> message e \<noteq> None"
    by (auto simp: scenarioC_api_def rateLimited_def onePage_def split: if_splits)
  have H3: "\<forall>n i off e. failing_api n i off = Inl e \<longrightarrow> message e \<noteq> None"
    by (auto simp: failing_api_def serverError_def)
  have F: "\<forall>a \<in> set [artistP, artistX, artistQ]. \<forall>n. \<exists>e.
             fst (retrieval False failing_search failing_api testNow 0 a n) = Inl e"
    by (simp add: failing_api_retrieval)
  have n: "nreq [] = 0"
    by (simp add: nreq_def)
  have u1: "fst (unionOfSuccesses False failing_search (scenarioC_api True) testNow 0
                  [artistP, artistX, artistQ] 0)
      = [toAlbum artistP (mkItem ''rp'' ''2025-08-20''),
         toAlbum artistX (mkItem ''rx'' ''2025-08-20''),
         toAlbum artistQ (mkItem ''rq'' ''2025-08-20'')]"
    and u2: "fst (unionOfSuccesses False failing_search (scenarioC_api False) testNow 0
                  [artistP, artistX, artistQ] 0)
      = [toAlbum artistP (mkItem ''rp'' ''2025-08-20''),
         toAlbum artistQ (mkItem ''rq'' ''2025-08-20'')]"
    and u3: "fst (unionOfSuccesses True tagNew_search failing_api testNow 0
                  [artistP, artistX, artistQ] 0)
      = [toAlbum artistP searchItem]"
    by code_simp+
  have a: "fst (fetchAllArtistAlbums False failing_search (scenarioC_api True) testNow 0
          [artistP, artistX, artistQ] [])
     = Inr [toAlbum artistP (mkItem ''rp'' ''2025-08-20''),
            toAlbum artistX (mkItem ''rx'' ''2025-08-20''),
            toAlbum artistQ (mkItem ''rq'' ''2025-08-20'')]"
    using fetchAllArtistAlbums_partial_results [where spotifyApi = "scenarioC_api True" and useSearchOptimization = False and searchApi = failing_search
          and now = testNow and tz = 0 and artists = "[artistP, artistX, artistQ]" and w = "[]",
        OF H1, THEN conjunct1]
    unfolding n u1 .
  have b: "fst (fetchAllArtistAlbums False failing_search (scenarioC_api False) testNow 0
          [artistP, artistX, artistQ] [])
     = Inr [toAlbum artistP (mkItem ''rp'' ''2025-08-20''),
            toAlbum artistQ (mkItem ''rq'' ''2025-08-20'')]"
    using fetchAllArtistAlbums_partial_results [where spotifyApi = "scenarioC_api False" and useSearchOptimization = False and searchApi = failing_search
          and now = testNow and tz = 0 and artists = "[artistP, artistX, artistQ]" and w = "[]",
        OF H2, THEN conjunct1]
    unfolding n u2 .
  have c: "fst (fetchAllArtistAlbums True tagNew_search failing_api testNow 0
          [artistP, artistX, artistQ] [])
     = Inr [toAlbum artistP searchItem]"
    using fetchAllArtistAlbums_partial_results [where spotifyApi = failing_api and useSearchOptimization = True and searchApi = tagNew_search
          and now = testNow and tz = 0 and artists = "[artistP, artistX, artistQ]" and w = "[]",
        OF H3, THEN conjunct1]
    unfolding n u3 .
  have d: "fst (fetchAllArtistAlbums False failing_search failing_api testNow 0
          [artistP, artistX, artistQ] []) = Inr []"
    using fetchAllArtistAlbums_partial_results [where spotifyApi = failing_api and useSearchOptimization = False and searchApi = failing_search
          and now = testNow and tz = 0 and artists = "[artistP, artistX, artistQ]" and w = "[]",
        OF H3, THEN conjunct2] F
    by blast
  from a b c d show ?thesis
    by (intro conjI)
qed

text \<open>
  With an albums endpoint that answers every request with a server error, the retrieval
  of each artist fails and the run returns the empty list. With one that throws an error
  without a message for artist X, the run ends at X: although the retrievals of P and Q
  return, the run of P, X, Q fails with the error of reading \<open>includes\<close> of \<open>undefined\<close>,
  and the run of ten times P, then X and Q returns the releases of the first batch only.
\<close>

theorem fetchAllArtistAlbums_all_fail_counterexample:
  "fst (fetchArtistAlbums False failing_search failing_api testNow 0 artistP [])
     = Inl (new_Error ''Spotify API error for P: Internal Server Error'')
   \<and> fst (fetchArtistAlbums False failing_search failing_api testNow 0 artistX [])
     = Inl (new_Error ''Spotify API error for X: Internal Server Error'')
   \<and> fst (fetchArtistAlbums False failing_search failing_api testNow 0 artistQ [])
     = Inl (new_Error ''Spotify API error for Q: Internal Server Error'')
   \<and> fst (fetchAllArtistAlbums False failing_search failing_api testNow 0
            [artistP, artistX, artistQ] []) = Inr []
   \<and> fst (fetchArtistAlbums False failing_search bare_api testNow 0 artistP [])
     = Inr [toAlbum artistP (mkItem ''rp'' ''2025-08-20'')]
   \<and> fst (fetchArtistAlbums False failing_search bare_api testNow 0 artistQ [])
     = Inr [toAlbum artistQ (mkItem ''rq'' ''2025-08-20'')]
   \<and> fetchAllArtistAlbums False failing_search bare_api testNow 0 [artistP, artistX, artistQ] []
     = (Inl (TypeError_undefined ''includes''), [Request ''p'' 0, Sleep 100, Request ''x'' 0])
   \<and> map_sum message (map album_id)
        (fst (fetchAllArtistAlbums False failing_search bare_api testNow 0
                (replicate 10 artistP @ [artistX, artistQ]) []))
     = Inr (replicate 10 ''rp'')"
  by code_simp

end
